theory Spec2Isabelle
  imports Complex_Main "HOL-Library.Multiset"
begin

section \<open>Python values, exceptions and dictionaries\<close>

text \<open>
  The module \<^verbatim>\<open>gemini_config.py\<close> works on complaint dictionaries of type
  \<^verbatim>\<open>Dict[str, Any]\<close>. The values a complaint can carry are modelled by \<open>pyval\<close>:
  \<^verbatim>\<open>None\<close>, booleans, unbounded integers, strings, lists and dictionaries. Python
  floats are left out. A dictionary is an association list in insertion order.
  Times (\<^verbatim>\<open>datetime\<close>, \<^verbatim>\<open>timedelta\<close>, the argument of \<^verbatim>\<open>time.sleep\<close>) are exact
  numbers of seconds.
\<close>

datatype pyval =
    PNone
  | PBool bool
  | PInt int
  | PStr string
  | PList "pyval list"
  | PDict "(string \<times> pyval) list"

type_synonym dict = "(string \<times> pyval) list"

text \<open>
  An exception is its class name and what \<^verbatim>\<open>str(e)\<close> returns. \<open>PyException\<close> is an
  instance of \<^verbatim>\<open>Exception\<close>, which \<^verbatim>\<open>except Exception\<close> catches; \<open>PyBaseException\<close> is
  an exception outside \<^verbatim>\<open>Exception\<close> (\<^verbatim>\<open>SystemExit\<close>, \<^verbatim>\<open>KeyboardInterrupt\<close>,
  \<^verbatim>\<open>GeneratorExit\<close>, or a class derived from \<^verbatim>\<open>BaseException\<close> directly), which it
  does not catch.
\<close>

datatype py_exception =
    is_Exception: PyException (exc_class: string) (exc_str: string)
  | PyBaseException (exc_class: string) (exc_str: string)

type_synonym 'a result = "py_exception + 'a"

definition dict_get :: "dict \<Rightarrow> string \<Rightarrow> pyval \<Rightarrow> pyval" where
  \<comment> \<open>\<^verbatim>\<open>d.get(k, default)\<close>\<close>
  "dict_get d k dflt = (case map_of d k of None \<Rightarrow> dflt | Some v \<Rightarrow> v)"

fun dict_set :: "dict \<Rightarrow> string \<Rightarrow> pyval \<Rightarrow> dict" where
  \<comment> \<open>one \<^verbatim>\<open>key: value\<close> item of a dict display: an existing key keeps its place\<close>
  "dict_set [] k v = [(k, v)]"
| "dict_set ((k', v') # d) k v =
     (if k' = k then (k, v) # d else (k', v') # dict_set d k v)"

definition lower_char :: "char \<Rightarrow> char" where
  "lower_char c =
     (let n = (of_char c :: nat) in if 65 \<le> n \<and> n \<le> 90 then char_of (n + 32) else c)"

definition str_lower :: "string \<Rightarrow> string" where
  \<comment> \<open>\<^verbatim>\<open>str.lower()\<close> on the ASCII letters\<close>
  "str_lower s = map lower_char s"

definition py_lower :: "pyval \<Rightarrow> string result" where
  \<comment> \<open>\<^verbatim>\<open>v.lower()\<close>: only \<^verbatim>\<open>str\<close> has the method\<close>
  "py_lower v =
     (case v of
        PStr s \<Rightarrow> Inr (str_lower s)
      | _ \<Rightarrow> Inl (PyException ''AttributeError'' ''object has no attribute lower''))"

fun truthy :: "pyval \<Rightarrow> bool" where
  "truthy PNone = False"
| "truthy (PBool b) = b"
| "truthy (PInt n) = (n \<noteq> 0)"
| "truthy (PStr s) = (s \<noteq> [])"
| "truthy (PList xs) = (xs \<noteq> [])"
| "truthy (PDict d) = (d \<noteq> [])"

fun int_value :: "pyval \<Rightarrow> int option" where
  \<comment> \<open>the values that compare with and multiply by an \<^verbatim>\<open>int\<close>; \<^verbatim>\<open>bool\<close> is a subclass of \<^verbatim>\<open>int\<close>\<close>
  "int_value (PInt n) = Some n"
| "int_value (PBool b) = Some (if b then 1 else 0)"
| "int_value _ = None"

fun str_contains :: "string \<Rightarrow> string \<Rightarrow> bool" where
  \<comment> \<open>\<^verbatim>\<open>sub in s\<close>\<close>
  "str_contains sub [] = (sub = [])"
| "str_contains sub (c # cs) = (take (length sub) (c # cs) = sub \<or> str_contains sub cs)"

definition str_replace_Z :: "string \<Rightarrow> string" where
  \<comment> \<open>\<^verbatim>\<open>s.replace('Z', '+00:00')\<close>\<close>
  "str_replace_Z s = concat (map (\<lambda>c. if c = CHR ''Z'' then ''+00:00'' else [c]) s)"

section \<open>Dates and the clock\<close>

text \<open>
  A \<^verbatim>\<open>datetime\<close> is its wall-clock reading in seconds from a fixed origin together with
  its \<^verbatim>\<open>tzinfo\<close>: \<open>None\<close> for a naive value, the UTC offset in seconds for an aware one.
  The scorer reads the system clock and calls the library parser
  \<^verbatim>\<open>datetime.fromisoformat\<close>; both are taken from a \<open>host\<close>. The parser answers \<open>None\<close>
  where the library raises \<^verbatim>\<open>ValueError\<close>.
\<close>

record datetime =
  wall :: real
  tzinfo :: "real option"

record host =
  utc_now :: real
  local_utcoffset :: real
  fromisoformat :: "string \<Rightarrow> datetime option"

definition datetime_now :: "host \<Rightarrow> real option \<Rightarrow> datetime" where
  \<comment> \<open>\<^verbatim>\<open>datetime.now(tz)\<close>\<close>
  "datetime_now h tz =
     (case tz of
        None \<Rightarrow> \<lparr>wall = utc_now h + local_utcoffset h, tzinfo = None\<rparr>
      | Some off \<Rightarrow> \<lparr>wall = utc_now h + off, tzinfo = Some off\<rparr>)"

definition datetime_sub :: "datetime \<Rightarrow> datetime \<Rightarrow> real result" where
  \<comment> \<open>\<^verbatim>\<open>a - b\<close>, a \<^verbatim>\<open>timedelta\<close> in seconds; naive and aware values do not mix\<close>
  "datetime_sub a b =
     (case (tzinfo a, tzinfo b) of
        (None, None) \<Rightarrow> Inr (wall a - wall b)
      | (Some oa, Some ob) \<Rightarrow> Inr ((wall a - oa) - (wall b - ob))
      | _ \<Rightarrow> Inl (PyException ''TypeError'' ''cannot subtract offset-naive and offset-aware datetimes''))"

definition days :: "real \<Rightarrow> int" where
  \<comment> \<open>\<^verbatim>\<open>timedelta.days\<close>: whole days, rounded towards minus infinity\<close>
  "days delta = \<lfloor>delta / 86400\<rfloor>"

section \<open>PriorityScorer\<close>

definition PRIORITY_WEIGHTS :: "(string \<times> int) list" where
  "PRIORITY_WEIGHTS = [(''urgent'', 100), (''high'', 75), (''medium'', 50), (''low'', 25)]"

definition STATUS_WEIGHTS :: "(string \<times> int) list" where
  "STATUS_WEIGHTS = [(''escalated'', 50), (''open'', 30), (''pending'', 20), (''resolved'', 0)]"

definition weights_get :: "(string \<times> int) list \<Rightarrow> string \<Rightarrow> int \<Rightarrow> int" where
  "weights_get table k dflt = (case map_of table k of None \<Rightarrow> dflt | Some v \<Rightarrow> v)"

definition AGE_MULTIPLIER :: int where "AGE_MULTIPLIER = 5"

definition AGE_MAX :: int where "AGE_MAX = 50"

definition POPULATION_MULTIPLIER :: int where "POPULATION_MULTIPLIER = 2"

definition POPULATION_MAX :: int where "POPULATION_MAX = 40"

definition calculate_age_score :: "host \<Rightarrow> pyval \<Rightarrow> int" where
  \<comment> \<open>what the \<^verbatim>\<open>try\<close> block raises (\<^verbatim>\<open>AttributeError\<close>, \<^verbatim>\<open>ValueError\<close>, \<^verbatim>\<open>TypeError\<close>) is an
      instance of \<^verbatim>\<open>Exception\<close> and ends in \<^verbatim>\<open>return 0\<close>\<close>
  "calculate_age_score h created_at =
     (case created_at of
        PStr s \<Rightarrow>
          (case fromisoformat h (str_replace_Z s) of
             None \<Rightarrow> 0
           | Some created_date \<Rightarrow>
               (case datetime_sub (datetime_now h (tzinfo created_date)) created_date of
                  Inl e \<Rightarrow> 0
                | Inr delta \<Rightarrow>
                    (let age_days = days delta;
                         age_score = min (age_days * AGE_MULTIPLIER) AGE_MAX
                     in age_score)))
      | _ \<Rightarrow> 0)"

definition calculate_population_score :: "pyval \<Rightarrow> int result" where
  "calculate_population_score affected_people =
     (if truthy affected_people then
        (case int_value affected_people of
           None \<Rightarrow> Inl (PyException ''TypeError'' ''> not supported between these operands'')
         | Some n \<Rightarrow>
             if n > 0 then Inr (min (n * POPULATION_MULTIPLIER) POPULATION_MAX) else Inr 0)
      else Inr 0)"

definition score_complaint :: "host \<Rightarrow> dict \<Rightarrow> dict result" where
  "score_complaint h complaint =
     (case py_lower (dict_get complaint ''priority'' (PStr ''low'')) of
        Inl e \<Rightarrow> Inl e
      | Inr p \<Rightarrow>
     (let priority_weight = weights_get PRIORITY_WEIGHTS p 0 in
      case py_lower (dict_get complaint ''status'' (PStr ''pending'')) of
        Inl e \<Rightarrow> Inl e
      | Inr st \<Rightarrow>
     (let status_weight = weights_get STATUS_WEIGHTS st 0;
          age_score = calculate_age_score h (dict_get complaint ''created_at'' (PStr ''''))
      in
      case calculate_population_score (dict_get complaint ''affected_people'' (PInt 0)) of
        Inl e \<Rightarrow> Inl e
      | Inr population_score \<Rightarrow>
     (let total_score = priority_weight + status_weight + age_score + population_score
      in Inr (dict_set
               (dict_set complaint ''priority_score'' (PInt total_score))
               ''priority_breakdown''
               (PDict [(''priority_level'', PInt priority_weight),
                       (''status'', PInt status_weight),
                       (''age'', PInt age_score),
                       (''population_impact'', PInt population_score),
                       (''total'', PInt total_score)]))))))"

fun score_each :: "host \<Rightarrow> dict list \<Rightarrow> dict list result" where
  \<comment> \<open>the list comprehension: the first exception ends it\<close>
  "score_each h [] = Inr []"
| "score_each h (c # cs) =
     (case score_complaint h c of
        Inl e \<Rightarrow> Inl e
      | Inr sc \<Rightarrow> (case score_each h cs of Inl e \<Rightarrow> Inl e | Inr scs \<Rightarrow> Inr (sc # scs)))"

definition sort_key_of :: "dict \<Rightarrow> int option" where
  \<comment> \<open>\<^verbatim>\<open>x.get('priority_score', 0)\<close>, when it is a number\<close>
  "sort_key_of x = int_value (dict_get x ''priority_score'' (PInt 0))"

definition sorted_reverse :: "dict list \<Rightarrow> dict list result" where
  \<comment> \<open>\<^verbatim>\<open>sorted(xs, key=..., reverse=True)\<close> on numeric keys: the list is reversed, sorted
      by a stable ascending sort and reversed again\<close>
  "sorted_reverse xs =
     (if \<forall>x \<in> set xs. sort_key_of x \<noteq> None
      then Inr (rev (sort_key (\<lambda>x. the (sort_key_of x)) (rev xs)))
      else Inl (PyException ''TypeError'' ''< not supported between these operands''))"

definition score_and_sort_complaints :: "host \<Rightarrow> dict list \<Rightarrow> dict list result" where
  "score_and_sort_complaints h complaints =
     (case score_each h complaints of
        Inl e \<Rightarrow> Inl e
      | Inr scored \<Rightarrow> sorted_reverse scored)"

definition get_priority_category :: "int \<Rightarrow> string" where
  "get_priority_category score =
     (if score \<ge> 200 then ''CRITICAL''
      else if score \<ge> 150 then ''HIGH''
      else if score \<ge> 100 then ''MEDIUM''
      else if score \<ge> 50 then ''LOW''
      else ''MINIMAL'')"

section \<open>RateLimiter\<close>

text \<open>
  The limiter object is a record of its fields; \<open>lock\<close> is \<open>True\<close> while the
  \<^verbatim>\<open>threading.Lock\<close> is held. What the limiter does to its surroundings is kept in a
  \<open>world\<close>: the reading of \<^verbatim>\<open>datetime.now()\<close>, and the trace of lock operations, sleeps and
  invocations of the wrapped callable, in the order they happen. \<^verbatim>\<open>time.sleep(d)\<close>
  advances the clock by \<open>d\<close>; it raises \<^verbatim>\<open>ValueError\<close> on a negative argument.
  The \<^verbatim>\<open>print\<close> calls are left out.
\<close>

datatype event = Acquire | Release | Sleep real | Invoke

record world =
  clock :: real
  trace :: "event list"

record rate_limiter =
  requests_per_minute :: int
  requests_per_hour :: int
  max_retries :: int
  initial_retry_delay :: real
  minute_requests :: "real list"
  hour_requests :: "real list"
  lock :: bool

definition RateLimiter :: "int \<Rightarrow> int \<Rightarrow> int \<Rightarrow> real \<Rightarrow> rate_limiter result" where
  \<comment> \<open>\<^verbatim>\<open>__init__\<close>: four assignments, two empty deques and a fresh lock; no \<^verbatim>\<open>raise\<close>\<close>
  "RateLimiter rpm rph mr ird =
     Inr \<lparr>requests_per_minute = rpm, requests_per_hour = rph, max_retries = mr,
          initial_retry_delay = ird, minute_requests = [], hour_requests = [],
          lock = False\<rparr>"

definition time_sleep :: "real \<Rightarrow> world \<Rightarrow> world result" where
  "time_sleep secs w =
     (if secs < 0 then Inl (PyException ''ValueError'' ''sleep length must be non-negative'')
      else Inr (w\<lparr>clock := clock w + secs, trace := trace w @ [Sleep secs]\<rparr>))"

definition clean_old_requests :: "rate_limiter \<Rightarrow> real \<Rightarrow> rate_limiter" where
  "clean_old_requests s now =
     (let minute_ago = now - 60;
          hour_ago = now - 3600
      in s\<lparr>minute_requests := dropWhile (\<lambda>t. t < minute_ago) (minute_requests s),
            hour_requests := dropWhile (\<lambda>t. t < hour_ago) (hour_requests s)\<rparr>)"

definition can_make_request :: "rate_limiter \<Rightarrow> world \<Rightarrow> bool \<times> rate_limiter" where
  "can_make_request s w =
     (let now = clock w;
          s1 = clean_old_requests s now
      in (int (length (minute_requests s1)) < requests_per_minute s1 \<and>
          int (length (hour_requests s1)) < requests_per_hour s1, s1))"

definition get_wait_time :: "rate_limiter \<Rightarrow> world \<Rightarrow> real \<times> rate_limiter" where
  "get_wait_time s w =
     (let now = clock w;
          s1 = clean_old_requests s now
      in case minute_requests s1 of
           [] \<Rightarrow> (0, s1)
         | oldest # _ \<Rightarrow>
             (let oldest_minute = oldest + 60;
                  wait_time = oldest_minute - now
              in (max 0 wait_time, s1)))"

partial_function (option) wait_loop ::
    "rate_limiter \<Rightarrow> world \<Rightarrow> (unit result \<times> rate_limiter \<times> world) option" where
  "wait_loop s w =
     (case can_make_request s w of
        (can, s1) \<Rightarrow>
          if can then Some (Inr (), s1, w)
          else
            (case get_wait_time s1 w of
               (wait_time, s2) \<Rightarrow>
                 if wait_time > 0 then
                   (case time_sleep (wait_time + 0.1) w of
                      Inl e \<Rightarrow> Some (Inl e, s2, w)
                    | Inr w1 \<Rightarrow> wait_loop (clean_old_requests s2 (clock w1)) w1)
                 else
                   (case time_sleep 0.1 w of
                      Inl e \<Rightarrow> Some (Inl e, s2, w)
                    | Inr w1 \<Rightarrow> wait_loop s2 w1)))"

definition wait_if_needed ::
    "rate_limiter \<Rightarrow> world \<Rightarrow> (unit result \<times> rate_limiter \<times> world) option" where
  \<comment> \<open>\<^verbatim>\<open>with self.lock:\<close> around the loop and the two appends; entering while the lock is
      held never returns\<close>
  "wait_if_needed s w =
     (if lock s then None
      else
        (case wait_loop (s\<lparr>lock := True\<rparr>) (w\<lparr>trace := trace w @ [Acquire]\<rparr>) of
           None \<Rightarrow> None
         | Some (Inl e, s1, w1) \<Rightarrow>
             Some (Inl e, s1\<lparr>lock := False\<rparr>, w1\<lparr>trace := trace w1 @ [Release]\<rparr>)
         | Some (Inr u, s1, w1) \<Rightarrow>
             (let now = clock w1;
                  s2 = s1\<lparr>minute_requests := minute_requests s1 @ [now],
                          hour_requests := hour_requests s1 @ [now]\<rparr>
              in Some (Inr (), s2\<lparr>lock := False\<rparr>, w1\<lparr>trace := trace w1 @ [Release]\<rparr>))))"

definition is_rate_limit :: "py_exception \<Rightarrow> bool" where
  "is_rate_limit e =
     (let error_msg = exc_str e
      in str_contains ''429'' error_msg \<or> str_contains ''rate limit'' (str_lower error_msg))"

definition py_range :: "int \<Rightarrow> int list" where
  \<comment> \<open>\<^verbatim>\<open>range(n)\<close>\<close>
  "py_range n = [0..n - 1]"

text \<open>
  The wrapped callable is a black box: \<open>func k\<close> is what its call in attempt \<open>k\<close>
  returns (\<open>Inr\<close>) or raises (\<open>Inl\<close>). The handler is \<^verbatim>\<open>except Exception\<close>: an
  exception outside \<^verbatim>\<open>Exception\<close> is not caught and leaves the function at once. The
  last component of the result of
  \<open>execute_with_retry\<close> is \<open>Inr (Some r)\<close> for \<^verbatim>\<open>return result\<close>, \<open>Inr None\<close> when the
  \<^verbatim>\<open>for\<close> loop ends without a \<^verbatim>\<open>return\<close>, and \<open>Inl e\<close> for an exception that leaves the
  function.
\<close>

fun retry_loop ::
    "(nat \<Rightarrow> 'a result) \<Rightarrow> int list \<Rightarrow> real \<Rightarrow> rate_limiter \<Rightarrow> world \<Rightarrow>
     ('a option result \<times> rate_limiter \<times> world) option" where
  "retry_loop func [] retry_delay s w = Some (Inr None, s, w)"
| "retry_loop func (attempt # rest) retry_delay s w =
     (case wait_if_needed s w of
        None \<Rightarrow> None
      | Some (admitted, s1, w1) \<Rightarrow>
          (case (case admitted of
                   Inl e \<Rightarrow> (Inl e, w1)
                 | Inr u \<Rightarrow> (func (nat attempt), w1\<lparr>trace := trace w1 @ [Invoke]\<rparr>)) of
             (Inr result, w2) \<Rightarrow> Some (Inr (Some result), s1, w2)
           | (Inl e, w2) \<Rightarrow>
               if \<not> is_Exception e then Some (Inl e, s1, w2)
               else if is_rate_limit e \<and> attempt < max_retries s1 then
                 (case time_sleep retry_delay w2 of
                    Inl e' \<Rightarrow> Some (Inl e', s1, w2)
                  | Inr w3 \<Rightarrow> retry_loop func rest (min (retry_delay * 2) 60) s1 w3)
               else Some (Inl e, s1, w2)))"

definition execute_with_retry ::
    "(nat \<Rightarrow> 'a result) \<Rightarrow> rate_limiter \<Rightarrow> world \<Rightarrow>
     ('a option result \<times> rate_limiter \<times> world) option" where
  "execute_with_retry func s w =
     (let retry_delay = initial_retry_delay s
      in retry_loop func (py_range (max_retries s + 1)) retry_delay s w)"

section \<open>Reading results, and example inputs\<close>

definition breakdown :: "int \<Rightarrow> int \<Rightarrow> int \<Rightarrow> int \<Rightarrow> pyval" where
  \<comment> \<open>the \<^verbatim>\<open>priority_breakdown\<close> dictionary built by \<open>score_complaint\<close>\<close>
  "breakdown p s a n =
     PDict [(''priority_level'', PInt p), (''status'', PInt s), (''age'', PInt a),
            (''population_impact'', PInt n), (''total'', PInt (p + s + a + n))]"

definition breakdown_of :: "dict \<Rightarrow> string \<Rightarrow> pyval option" where
  \<comment> \<open>\<^verbatim>\<open>sc['priority_breakdown'][k]\<close>, \<open>None\<close> where a key is missing\<close>
  "breakdown_of sc k =
     (case map_of sc ''priority_breakdown'' of Some (PDict b) \<Rightarrow> map_of b k | _ \<Rightarrow> None)"



text \<open>
  An example host: its clock reads 2026-11-03T06:30:00 UTC, local time is five and a half
  hours ahead, and the parser knows four timestamps (the local present, one day ago with an
  explicit offset, thirty days ago, ten days ahead) and rejects every other string.
\<close>

definition example_host :: host where
  "example_host =
     \<lparr>utc_now = 10000000, local_utcoffset = 19800,
      fromisoformat =
        [''2026-11-03T12:00:00'' \<mapsto> \<lparr>wall = 10019800, tzinfo = None\<rparr>,
         ''2026-11-02T06:30:00+00:00'' \<mapsto> \<lparr>wall = 9913600, tzinfo = Some 0\<rparr>,
         ''2026-10-04T12:00:00'' \<mapsto> \<lparr>wall = 7427800, tzinfo = None\<rparr>,
         ''2026-11-13T12:00:00'' \<mapsto> \<lparr>wall = 10883800, tzinfo = None\<rparr>]\<rparr>"

section \<open>Observing the rate limiter\<close>

declare wait_loop.simps [code]

text \<open>
  A window \<open>after\<close> comes from \<open>before\<close> by a purge at time \<open>now\<close> when it is \<open>before\<close>
  without some of its first entries, all of them older than the window's width.
\<close>

definition purged :: "real \<Rightarrow> real \<Rightarrow> real list \<Rightarrow> real list \<Rightarrow> bool" where
  "purged width now before after \<longleftrightarrow>
     (\<exists>old. before = old @ after \<and> (\<forall>t \<in> set old. t < now - width))"

text \<open>
  What holds throughout the loop of \<open>wait_if_needed\<close>, entered from the limiter \<open>s\<close> and
  the world \<open>w\<close>: the configuration is untouched, the lock is held, the trace has grown by
  \<open>Acquire\<close> and sleeps only, the clock has advanced by the time slept, and the windows
  have only been purged.
\<close>

definition waiting :: "rate_limiter \<Rightarrow> world \<Rightarrow> rate_limiter \<Rightarrow> world \<Rightarrow> bool" where
  "waiting s w s' w' \<longleftrightarrow>
     requests_per_minute s' = requests_per_minute s \<and>
     requests_per_hour s' = requests_per_hour s \<and>
     max_retries s' = max_retries s \<and>
     initial_retry_delay s' = initial_retry_delay s \<and>
     lock s' \<and>
     (\<exists>ds. trace w' = trace w @ Acquire # map Sleep ds \<and> (\<forall>d \<in> set ds. 0 < d) \<and>
           clock w' = clock w + sum_list ds) \<and>
     purged 60 (clock w') (minute_requests s) (minute_requests s') \<and>
     purged 3600 (clock w') (hour_requests s) (hour_requests s')"

fun sleeps_with_lock :: "bool \<Rightarrow> event list \<Rightarrow> (real \<times> bool) list" where
  \<comment> \<open>the sleeps of a trace, each with whether the lock was held during it\<close>
  "sleeps_with_lock held [] = []"
| "sleeps_with_lock held (Acquire # es) = sleeps_with_lock True es"
| "sleeps_with_lock held (Release # es) = sleeps_with_lock False es"
| "sleeps_with_lock held (Sleep d # es) = (d, held) # sleeps_with_lock held es"
| "sleeps_with_lock held (Invoke # es) = sleeps_with_lock held es"

definition invocations :: "event list \<Rightarrow> nat" where
  \<comment> \<open>the number of attempts at the wrapped callable\<close>
  "invocations es = length (filter (\<lambda>e. e = Invoke) es)"

definition backoff_delays :: "event list \<Rightarrow> real list" where
  \<comment> \<open>the sleeps outside the lock: those of \<open>execute_with_retry\<close> before a retry\<close>
  "backoff_delays es = map fst (filter (\<lambda>x. \<not> snd x) (sleeps_with_lock False es))"

text \<open>
  A caller that calls \<open>wait_if_needed\<close> again and again, letting \<open>gap\<close> seconds pass before
  each call; it returns the instants at which the calls were admitted.
\<close>

fun admit_all ::
    "real list \<Rightarrow> rate_limiter \<Rightarrow> world \<Rightarrow> (real list result \<times> rate_limiter \<times> world) option" where
  "admit_all [] s w = Some (Inr [], s, w)"
| "admit_all (gap # gaps) s w =
     (case wait_if_needed s (w\<lparr>clock := clock w + gap\<rparr>) of
        None \<Rightarrow> None
      | Some (Inl e, s1, w1) \<Rightarrow> Some (Inl e, s1, w1)
      | Some (Inr u, s1, w1) \<Rightarrow>
          (case admit_all gaps s1 w1 of
             None \<Rightarrow> None
           | Some (Inl e, s2, w2) \<Rightarrow> Some (Inl e, s2, w2)
           | Some (Inr ts, s2, w2) \<Rightarrow> Some (Inr (clock w1 # ts), s2, w2)))"

text \<open>
  The retry loop without the limiter: the result, the number of attempts and the delays
  slept, given that every admission returns. \<open>retry_loop\<close> is shown to behave so.
\<close>

fun retry_plan ::
    "(nat \<Rightarrow> 'a result) \<Rightarrow> int \<Rightarrow> int list \<Rightarrow> real \<Rightarrow> 'a option result \<times> nat \<times> real list" where
  "retry_plan func mr [] d = (Inr None, 0, [])"
| "retry_plan func mr (attempt # rest) d =
     (case func (nat attempt) of
        Inr x \<Rightarrow> (Inr (Some x), 1, [])
      | Inl e \<Rightarrow>
          if is_Exception e \<and> is_rate_limit e \<and> attempt < mr then
            (if d < 0
             then (Inl (PyException ''ValueError'' ''sleep length must be non-negative''), 1, [])
             else (case retry_plan func mr rest (min (d * 2) 60) of
                     (r, n, ds) \<Rightarrow> (r, Suc n, d # ds)))
          else (Inl e, 1, []))"

fun backoff_schedule :: "real \<Rightarrow> nat \<Rightarrow> real list" where
  \<comment> \<open>the first \<open>n\<close> values of \<^verbatim>\<open>retry_delay\<close>\<close>
  "backoff_schedule d 0 = []"
| "backoff_schedule d (Suc n) = d # backoff_schedule (min (d * 2) 60) n"

text \<open>
  Example limiters and callables: a limiter of one request per minute that admitted a
  request at time 0; a limiter with the default limits, empty windows and a given retry
  configuration; a callable that is always rejected with a 429, one that always
  fails for another reason, and one that always raises \<^verbatim>\<open>SystemExit\<close> with a message
  that names a 429.
\<close>

definition busy_limiter :: rate_limiter where
  "busy_limiter =
     \<lparr>requests_per_minute = 1, requests_per_hour = 1500, max_retries = 5,
      initial_retry_delay = 1, minute_requests = [0], hour_requests = [0], lock = False\<rparr>"

definition default_limiter :: "int \<Rightarrow> real \<Rightarrow> rate_limiter" where
  "default_limiter mr ird =
     \<lparr>requests_per_minute = 30, requests_per_hour = 1500, max_retries = mr,
      initial_retry_delay = ird, minute_requests = [], hour_requests = [], lock = False\<rparr>"

definition always_rate_limited :: "nat \<Rightarrow> unit result" where
  "always_rate_limited k = Inl (PyException ''ClientError'' ''429 RESOURCE_EXHAUSTED'')"

definition always_exiting :: "nat \<Rightarrow> unit result" where
  "always_exiting k = Inl (PyBaseException ''SystemExit'' ''429 quota'')"

definition always_invalid :: "nat \<Rightarrow> unit result" where
  "always_invalid k = Inl (PyException ''ValueError'' ''invalid prompt'')"


section \<open>Properties of the scorer\<close>

subsection \<open>Dictionaries, strings and weights\<close>

lemma map_of_dict_set: "map_of (dict_set d k v) = (map_of d)(k \<mapsto> v)"
  by (induction d k v rule: dict_set.induct) auto

lemma dict_get_dict_set:
  "dict_get (dict_set d k v) k' dflt = (if k' = k then v else dict_get d k' dflt)"
  by (simp add: dict_get_def map_of_dict_set)

lemma str_lower_low: "str_lower ''low'' = ''low''"
  by code_simp

lemma str_lower_pending: "str_lower ''pending'' = ''pending''"
  by code_simp

lemma str_lower_urgent: "str_lower ''urgent'' = ''urgent''"
  by code_simp

lemma str_lower_escalated: "str_lower ''escalated'' = ''escalated''"
  by code_simp



lemma weight_low: "weights_get PRIORITY_WEIGHTS ''low'' 0 = 25"
  by (simp add: weights_get_def PRIORITY_WEIGHTS_def)

lemma weight_urgent: "weights_get PRIORITY_WEIGHTS ''urgent'' 0 = 100"
  by (simp add: weights_get_def PRIORITY_WEIGHTS_def)

lemma weight_pending: "weights_get STATUS_WEIGHTS ''pending'' 0 = 20"
  by (simp add: weights_get_def STATUS_WEIGHTS_def)

lemma weight_escalated: "weights_get STATUS_WEIGHTS ''escalated'' 0 = 50"
  by (simp add: weights_get_def STATUS_WEIGHTS_def)


lemma priority_weight_range:
  "0 \<le> weights_get PRIORITY_WEIGHTS p 0 \<and> weights_get PRIORITY_WEIGHTS p 0 \<le> 100"
  by (simp add: weights_get_def PRIORITY_WEIGHTS_def)

lemma status_weight_range:
  "0 \<le> weights_get STATUS_WEIGHTS st 0 \<and> weights_get STATUS_WEIGHTS st 0 \<le> 50"
  by (simp add: weights_get_def STATUS_WEIGHTS_def)

subsection \<open>The sub-scores and their sum\<close>

lemma days_exact: "days (real_of_int n * 86400) = n"
  by (simp add: days_def)

lemma age_score_le: "calculate_age_score h v \<le> 50"
  by (simp add: calculate_age_score_def AGE_MAX_def Let_def
           split: pyval.splits option.splits sum.splits)

lemma age_score_parsed:
  assumes "fromisoformat h (str_replace_Z s) = Some d"
      and "datetime_sub (datetime_now h (tzinfo d)) d = Inr delta"
  shows "calculate_age_score h (PStr s) = min (days delta * 5) 50"
  using assms by (simp add: calculate_age_score_def AGE_MULTIPLIER_def AGE_MAX_def)

lemma days_nonneg: "0 \<le> delta \<Longrightarrow> 0 \<le> days delta"
  by (simp add: days_def)

lemma age_score_negative_only_in_future:
  assumes "calculate_age_score h v < 0"
  shows "\<exists>s d delta. v = PStr s \<and> fromisoformat h (str_replace_Z s) = Some d \<and>
           datetime_sub (datetime_now h (tzinfo d)) d = Inr delta \<and> delta < 0"
proof -
  from assms obtain s d delta where
    v: "v = PStr s" "fromisoformat h (str_replace_Z s) = Some d"
       "datetime_sub (datetime_now h (tzinfo d)) d = Inr delta"
    by (auto simp: calculate_age_score_def split: pyval.splits option.splits sum.splits)
  have "delta < 0"
  proof (rule ccontr)
    assume "\<not> delta < 0"
    then have "0 \<le> days delta" by (simp add: days_nonneg)
    then have "0 \<le> calculate_age_score h v"
      using v by (simp add: age_score_parsed)
    with assms show False by simp
  qed
  with v show ?thesis by blast
qed

lemma population_score_range:
  "calculate_population_score v = Inr n \<Longrightarrow> 0 \<le> n \<and> n \<le> 40"
  by (auto simp: calculate_population_score_def POPULATION_MAX_def POPULATION_MULTIPLIER_def
           split: if_splits option.splits)

lemma score_complaint_Inr:
  assumes "score_complaint h c = Inr sc"
  shows "\<exists>p st n.
           py_lower (dict_get c ''priority'' (PStr ''low'')) = Inr p \<and>
           py_lower (dict_get c ''status'' (PStr ''pending'')) = Inr st \<and>
           calculate_population_score (dict_get c ''affected_people'' (PInt 0)) = Inr n \<and>
           sc = dict_set (dict_set c ''priority_score''
                  (PInt (weights_get PRIORITY_WEIGHTS p 0 + weights_get STATUS_WEIGHTS st 0
                         + calculate_age_score h (dict_get c ''created_at'' (PStr [])) + n)))
                  ''priority_breakdown''
                  (breakdown (weights_get PRIORITY_WEIGHTS p 0) (weights_get STATUS_WEIGHTS st 0)
                     (calculate_age_score h (dict_get c ''created_at'' (PStr []))) n)"
  using assms
  by (auto simp: score_complaint_def Let_def breakdown_def split: sum.splits)

lemma sort_key_of_scored:
  "sort_key_of (dict_set (dict_set c ''priority_score'' (PInt t)) ''priority_breakdown'' b) = Some t"
  by (simp add: sort_key_of_def dict_get_dict_set)

lemma breakdown_of_scored:
  "breakdown_of (dict_set (dict_set c ''priority_score'' t) ''priority_breakdown''
                  (breakdown p s a n)) k
     = map_of [(''priority_level'', PInt p), (''status'', PInt s), (''age'', PInt a),
               (''population_impact'', PInt n), (''total'', PInt (p + s + a + n))] k"
  by (simp add: breakdown_of_def map_of_dict_set breakdown_def)

text \<open>
  Whenever \<open>score_complaint\<close> returns, the total is the sum of the four sub-scores and is
  at most 240. Three of the sub-scores are never negative; the age is bounded from above
  only, and is negative only for parsed creation times that lie ahead of the clock
  (\<open>age_score_negative_only_in_future\<close>).
\<close>

lemma score_complaint_sum_le_240:
  assumes "score_complaint h c = Inr sc"
  shows "\<exists>p s a n. sort_key_of sc = Some (p + s + a + n) \<and> p + s + a + n \<le> 240 \<and>
           breakdown_of sc ''priority_level'' = Some (PInt p) \<and> 0 \<le> p \<and> p \<le> 100 \<and>
           breakdown_of sc ''status'' = Some (PInt s) \<and> 0 \<le> s \<and> s \<le> 50 \<and>
           breakdown_of sc ''age'' = Some (PInt a) \<and> a \<le> 50 \<and>
           breakdown_of sc ''population_impact'' = Some (PInt n) \<and> 0 \<le> n \<and> n \<le> 40 \<and>
           breakdown_of sc ''total'' = Some (PInt (p + s + a + n))"
proof -
  from score_complaint_Inr[OF assms] obtain pl sl n where
    n: "calculate_population_score (dict_get c ''affected_people'' (PInt 0)) = Inr n" and
    sc: "sc = dict_set (dict_set c ''priority_score''
                  (PInt (weights_get PRIORITY_WEIGHTS pl 0 + weights_get STATUS_WEIGHTS sl 0
                         + calculate_age_score h (dict_get c ''created_at'' (PStr [])) + n)))
                  ''priority_breakdown''
                  (breakdown (weights_get PRIORITY_WEIGHTS pl 0) (weights_get STATUS_WEIGHTS sl 0)
                     (calculate_age_score h (dict_get c ''created_at'' (PStr []))) n)"
    by blast
  let ?p = "weights_get PRIORITY_WEIGHTS pl 0"
  let ?s = "weights_get STATUS_WEIGHTS sl 0"
  let ?a = "calculate_age_score h (dict_get c ''created_at'' (PStr []))"
  have b: "0 \<le> ?p" "?p \<le> 100" "0 \<le> ?s" "?s \<le> 50" "?a \<le> 50" "0 \<le> n" "n \<le> 40"
    using priority_weight_range[of pl] status_weight_range[of sl] age_score_le[of h]
      population_score_range[OF n] by auto
  have k: "sort_key_of sc = Some (?p + ?s + ?a + n)"
    unfolding sc by (rule sort_key_of_scored)
  have f: "breakdown_of sc ''priority_level'' = Some (PInt ?p)"
    "breakdown_of sc ''status'' = Some (PInt ?s)"
    "breakdown_of sc ''age'' = Some (PInt ?a)"
    "breakdown_of sc ''population_impact'' = Some (PInt n)"
    "breakdown_of sc ''total'' = Some (PInt (?p + ?s + ?a + n))"
    unfolding sc breakdown_of_scored by simp_all
  have "?p + ?s + ?a + n \<le> 240" using b by linarith
  with k f b show ?thesis by blast
qed

text \<open>
  C1. The claim: for every complaint the total lies in 0..240, also when the creation
  timestamp lies in the future. The upper bound and the sum hold
  (\<open>score_complaint_sum_le_240\<close>); the lower bound does not. On the example host, a
  complaint of low priority, resolved, affecting nobody and created ten days ahead of the
  clock gets the age \<open>-50\<close> and the total \<open>-25\<close>: \<^verbatim>\<open>(now - created).days\<close> is \<open>-10\<close>, and
  \<^verbatim>\<open>min\<close> caps the age from above only.
\<close>

theorem future_timestamp_negative_score:
  "score_complaint example_host
     [(''priority'', PStr ''low''), (''status'', PStr ''resolved''),
      (''created_at'', PStr ''2026-11-13T12:00:00''), (''affected_people'', PInt 0)]
   = Inr [(''priority'', PStr ''low''), (''status'', PStr ''resolved''),
          (''created_at'', PStr ''2026-11-13T12:00:00''), (''affected_people'', PInt 0),
          (''priority_score'', PInt (- 25)),
          (''priority_breakdown'',
             PDict [(''priority_level'', PInt 25), (''status'', PInt 0), (''age'', PInt (- 50)),
                    (''population_impact'', PInt 0), (''total'', PInt (- 25))])]"
  by code_simp

subsection \<open>Malformed and missing fields\<close>













subsection \<open>The concrete scenario\<close>

text \<open>
  C10. On any host: a complaint with priority urgent, status escalated, 500 affected
  people, created exactly one day before the clock reading scores 100, 50, 5 and 40, in
  total 195, category HIGH; a complaint with priority low, status pending, 10 affected
  people, created at the clock reading scores 25, 20, 0 and 20, in total 65, category LOW;
  \<open>score_and_sort_complaints\<close> puts the first before the second, in whichever order they
  are given; a creation time thirty days back has the age score 50.
\<close>

theorem concrete_scenario:
  assumes p1: "fromisoformat h (str_replace_Z s1) = Some d1"
      and e1: "datetime_sub (datetime_now h (tzinfo d1)) d1 = Inr 86400"
      and p2: "fromisoformat h (str_replace_Z s2) = Some d2"
      and e2: "datetime_sub (datetime_now h (tzinfo d2)) d2 = Inr 0"
      and p3: "fromisoformat h (str_replace_Z s3) = Some d3"
      and e3: "datetime_sub (datetime_now h (tzinfo d3)) d3 = Inr (30 * 86400)"
  shows "\<exists>sc1 sc2.
           score_complaint h
             [(''priority'', PStr ''urgent''), (''status'', PStr ''escalated''),
              (''affected_people'', PInt 500), (''created_at'', PStr s1)] = Inr sc1 \<and>
           breakdown_of sc1 ''priority_level'' = Some (PInt 100) \<and>
           breakdown_of sc1 ''status'' = Some (PInt 50) \<and>
           breakdown_of sc1 ''age'' = Some (PInt 5) \<and>
           breakdown_of sc1 ''population_impact'' = Some (PInt 40) \<and>
           breakdown_of sc1 ''total'' = Some (PInt 195) \<and>
           sort_key_of sc1 = Some 195 \<and>
           get_priority_category 195 = ''HIGH'' \<and>
           score_complaint h
             [(''priority'', PStr ''low''), (''status'', PStr ''pending''),
              (''affected_people'', PInt 10), (''created_at'', PStr s2)] = Inr sc2 \<and>
           breakdown_of sc2 ''priority_level'' = Some (PInt 25) \<and>
           breakdown_of sc2 ''status'' = Some (PInt 20) \<and>
           breakdown_of sc2 ''age'' = Some (PInt 0) \<and>
           breakdown_of sc2 ''population_impact'' = Some (PInt 20) \<and>
           breakdown_of sc2 ''total'' = Some (PInt 65) \<and>
           sort_key_of sc2 = Some 65 \<and>
           get_priority_category 65 = ''LOW'' \<and>
           score_and_sort_complaints h
             [[(''priority'', PStr ''urgent''), (''status'', PStr ''escalated''),
               (''affected_people'', PInt 500), (''created_at'', PStr s1)],
              [(''priority'', PStr ''low''), (''status'', PStr ''pending''),
               (''affected_people'', PInt 10), (''created_at'', PStr s2)]] = Inr [sc1, sc2] \<and>
           score_and_sort_complaints h
             [[(''priority'', PStr ''low''), (''status'', PStr ''pending''),
               (''affected_people'', PInt 10), (''created_at'', PStr s2)],
              [(''priority'', PStr ''urgent''), (''status'', PStr ''escalated''),
               (''affected_people'', PInt 500), (''created_at'', PStr s1)]] = Inr [sc1, sc2] \<and>
           calculate_age_score h (PStr s3) = 50"
proof -
  let ?c1 = "[(''priority'', PStr ''urgent''), (''status'', PStr ''escalated''),
              (''affected_people'', PInt 500), (''created_at'', PStr s1)]"
  let ?c2 = "[(''priority'', PStr ''low''), (''status'', PStr ''pending''),
              (''affected_people'', PInt 10), (''created_at'', PStr s2)]"
  let ?sc1 = "dict_set (dict_set ?c1 ''priority_score'' (PInt 195)) ''priority_breakdown''
                (breakdown 100 50 5 40)"
  let ?sc2 = "dict_set (dict_set ?c2 ''priority_score'' (PInt 65)) ''priority_breakdown''
                (breakdown 25 20 0 20)"
  have a1: "calculate_age_score h (PStr s1) = 5"
    using age_score_parsed[OF p1 e1] days_exact[of 1] by simp
  have a2: "calculate_age_score h (PStr s2) = 0"
    using age_score_parsed[OF p2 e2] days_exact[of 0] by simp
  have a3: "calculate_age_score h (PStr s3) = 50"
    using age_score_parsed[OF p3 e3] days_exact[of 30] by simp
  have n1: "calculate_population_score (PInt 500) = Inr 40"
    by (simp add: calculate_population_score_def POPULATION_MULTIPLIER_def POPULATION_MAX_def)
  have n2: "calculate_population_score (PInt 10) = Inr 20"
    by (simp add: calculate_population_score_def POPULATION_MULTIPLIER_def POPULATION_MAX_def)
  have s1: "score_complaint h ?c1 = Inr ?sc1"
    by (simp add: score_complaint_def dict_get_def py_lower_def str_lower_urgent
          str_lower_escalated weight_urgent weight_escalated a1 n1 breakdown_def)
  have s2: "score_complaint h ?c2 = Inr ?sc2"
    by (simp add: score_complaint_def dict_get_def py_lower_def str_lower_low
          str_lower_pending weight_low weight_pending a2 n2 breakdown_def)
  have k1: "sort_key_of ?sc1 = Some 195" by (rule sort_key_of_scored)
  have k2: "sort_key_of ?sc2 = Some 65" by (rule sort_key_of_scored)
  have o1: "score_and_sort_complaints h [?c1, ?c2] = Inr [?sc1, ?sc2]"
    unfolding score_and_sort_complaints_def sorted_reverse_def
    using s1 s2 k1 k2 by simp
  have o2: "score_and_sort_complaints h [?c2, ?c1] = Inr [?sc1, ?sc2]"
    unfolding score_and_sort_complaints_def sorted_reverse_def
    using s1 s2 k1 k2 by simp
  have b1: "breakdown_of ?sc1 k = map_of [(''priority_level'', PInt 100), (''status'', PInt 50),
       (''age'', PInt 5), (''population_impact'', PInt 40), (''total'', PInt 195)] k" for k
    using breakdown_of_scored[of ?c1 "PInt 195" 100 50 5 40 k] by simp
  have b2: "breakdown_of ?sc2 k = map_of [(''priority_level'', PInt 25), (''status'', PInt 20),
       (''age'', PInt 0), (''population_impact'', PInt 20), (''total'', PInt 65)] k" for k
    using breakdown_of_scored[of ?c2 "PInt 65" 25 20 0 20 k] by simp
  have cat: "get_priority_category 195 = ''HIGH''" "get_priority_category 65 = ''LOW''"
    by (simp_all add: get_priority_category_def)
  have f1: "breakdown_of ?sc1 ''priority_level'' = Some (PInt 100)"
    "breakdown_of ?sc1 ''status'' = Some (PInt 50)"
    "breakdown_of ?sc1 ''age'' = Some (PInt 5)"
    "breakdown_of ?sc1 ''population_impact'' = Some (PInt 40)"
    "breakdown_of ?sc1 ''total'' = Some (PInt 195)"
    unfolding b1 by simp_all
  have f2: "breakdown_of ?sc2 ''priority_level'' = Some (PInt 25)"
    "breakdown_of ?sc2 ''status'' = Some (PInt 20)"
    "breakdown_of ?sc2 ''age'' = Some (PInt 0)"
    "breakdown_of ?sc2 ''population_impact'' = Some (PInt 20)"
    "breakdown_of ?sc2 ''total'' = Some (PInt 65)"
    unfolding b2 by simp_all
  show ?thesis
    by (intro exI[of _ ?sc1] exI[of _ ?sc2] conjI) (fact s1 f1 k1 cat s2 f2 k2 o1 o2 a3)+
qed

text \<open>
  The scenario on the example host: the first complaint was created at
  2026-11-02T06:30:00Z, the second at the local present, the third timestamp is thirty
  days old.
\<close>

theorem concrete_scenario_witness:
  "\<exists>sc1 sc2.
           score_complaint example_host
             [(''priority'', PStr ''urgent''), (''status'', PStr ''escalated''),
              (''affected_people'', PInt 500), (''created_at'', PStr ''2026-11-02T06:30:00Z'')] = Inr sc1 \<and>
           breakdown_of sc1 ''priority_level'' = Some (PInt 100) \<and>
           breakdown_of sc1 ''status'' = Some (PInt 50) \<and>
           breakdown_of sc1 ''age'' = Some (PInt 5) \<and>
           breakdown_of sc1 ''population_impact'' = Some (PInt 40) \<and>
           breakdown_of sc1 ''total'' = Some (PInt 195) \<and>
           sort_key_of sc1 = Some 195 \<and>
           get_priority_category 195 = ''HIGH'' \<and>
           score_complaint example_host
             [(''priority'', PStr ''low''), (''status'', PStr ''pending''),
              (''affected_people'', PInt 10), (''created_at'', PStr ''2026-11-03T12:00:00'')] = Inr sc2 \<and>
           breakdown_of sc2 ''priority_level'' = Some (PInt 25) \<and>
           breakdown_of sc2 ''status'' = Some (PInt 20) \<and>
           breakdown_of sc2 ''age'' = Some (PInt 0) \<and>
           breakdown_of sc2 ''population_impact'' = Some (PInt 20) \<and>
           breakdown_of sc2 ''total'' = Some (PInt 65) \<and>
           sort_key_of sc2 = Some 65 \<and>
           get_priority_category 65 = ''LOW'' \<and>
           score_and_sort_complaints example_host
             [[(''priority'', PStr ''urgent''), (''status'', PStr ''escalated''),
               (''affected_people'', PInt 500), (''created_at'', PStr ''2026-11-02T06:30:00Z'')],
              [(''priority'', PStr ''low''), (''status'', PStr ''pending''),
               (''affected_people'', PInt 10), (''created_at'', PStr ''2026-11-03T12:00:00'')]] = Inr [sc1, sc2] \<and>
           score_and_sort_complaints example_host
             [[(''priority'', PStr ''low''), (''status'', PStr ''pending''),
               (''affected_people'', PInt 10), (''created_at'', PStr ''2026-11-03T12:00:00'')],
              [(''priority'', PStr ''urgent''), (''status'', PStr ''escalated''),
               (''affected_people'', PInt 500), (''created_at'', PStr ''2026-11-02T06:30:00Z'')]] = Inr [sc1, sc2] \<and>
           calculate_age_score example_host (PStr ''2026-10-04T12:00:00'') = 50"
proof -
  have p1: "fromisoformat example_host (str_replace_Z ''2026-11-02T06:30:00Z'')
              = Some \<lparr>wall = 9913600, tzinfo = Some 0\<rparr>" by code_simp
  have e1: "datetime_sub (datetime_now example_host (tzinfo \<lparr>wall = 9913600, tzinfo = Some 0\<rparr>))
              \<lparr>wall = 9913600, tzinfo = Some 0\<rparr> = Inr 86400" by code_simp
  have p2: "fromisoformat example_host (str_replace_Z ''2026-11-03T12:00:00'')
              = Some \<lparr>wall = 10019800, tzinfo = None\<rparr>" by code_simp
  have e2: "datetime_sub (datetime_now example_host (tzinfo \<lparr>wall = 10019800, tzinfo = None\<rparr>))
              \<lparr>wall = 10019800, tzinfo = None\<rparr> = Inr 0" by code_simp
  have p3: "fromisoformat example_host (str_replace_Z ''2026-10-04T12:00:00'')
              = Some \<lparr>wall = 7427800, tzinfo = None\<rparr>" by code_simp
  have e3: "datetime_sub (datetime_now example_host (tzinfo \<lparr>wall = 7427800, tzinfo = None\<rparr>))
              \<lparr>wall = 7427800, tzinfo = None\<rparr> = Inr (30 * 86400)" by code_simp
  show ?thesis by (rule concrete_scenario[OF p1 e1 p2 e2 p3 e3])
qed

subsection \<open>Scoring and sorting a list\<close>

lemma score_each_Inr:
  "score_each h cs = Inr scored \<Longrightarrow>
     list_all2 (\<lambda>c sc. score_complaint h c = Inr sc) cs scored"
  by (induction cs arbitrary: scored) (auto split: sum.splits)

lemma score_each_total:
  "\<forall>c \<in> set cs. \<exists>sc. score_complaint h c = Inr sc \<Longrightarrow> \<exists>scored. score_each h cs = Inr scored"
  by (induction cs) auto

lemma scored_has_key:
  assumes "score_complaint h c = Inr sc"
  shows "\<exists>t. sort_key_of sc = Some t"
  using score_complaint_Inr[OF assms] by (auto simp: sort_key_of_scored)

lemma score_each_keys:
  "score_each h cs = Inr scored \<Longrightarrow> \<forall>x \<in> set scored. \<exists>t. sort_key_of x = Some t"
  by (induction cs arbitrary: scored) (auto split: sum.splits dest: scored_has_key)

lemma sorted_reverse_spec:
  assumes keys: "\<forall>x \<in> set xs. \<exists>t. sort_key_of x = Some t"
  shows "\<exists>out ks. sorted_reverse xs = Inr out \<and> mset out = mset xs \<and>
           map sort_key_of out = map Some ks \<and> sorted (rev ks) \<and>
           (\<forall>k. filter (\<lambda>x. sort_key_of x = Some k) out = filter (\<lambda>x. sort_key_of x = Some k) xs)"
proof -
  let ?f = "\<lambda>x. the (sort_key_of x)"
  let ?out = "rev (sort_key ?f (rev xs))"
  have out: "sorted_reverse xs = Inr ?out"
    using keys by (auto simp: sorted_reverse_def)
  have m: "mset ?out = mset xs" by simp
  have set_out: "set ?out = set xs" by simp
  have k1: "map sort_key_of ?out = map Some (map ?f ?out)"
    using keys set_out by (auto simp del: set_rev set_sort)
  have k2: "sorted (rev (map ?f ?out))"
    by (simp add: rev_map)
  have st: "filter (\<lambda>x. sort_key_of x = Some k) ?out = filter (\<lambda>x. sort_key_of x = Some k) xs"
    for k
  proof -
    have e: "\<And>ys. set ys = set xs \<Longrightarrow>
               filter (\<lambda>x. sort_key_of x = Some k) ys = filter (\<lambda>x. ?f x = k) ys"
      using keys by (intro filter_cong) auto
    have "filter (\<lambda>x. sort_key_of x = Some k) ?out = filter (\<lambda>x. ?f x = k) ?out"
      by (rule e) simp
    also have "\<dots> = rev (filter (\<lambda>x. ?f x = k) (sort_key ?f (rev xs)))"
      by (simp add: rev_filter)
    also have "\<dots> = rev (filter (\<lambda>x. ?f x = k) (rev xs))"
      by (simp only: sort_key_stable)
    also have "\<dots> = filter (\<lambda>x. ?f x = k) xs"
      by (simp add: rev_filter)
    also have "\<dots> = filter (\<lambda>x. sort_key_of x = Some k) xs"
      by (rule e[symmetric]) simp
    finally show ?thesis .
  qed
  show ?thesis using out m k1 k2 st by blast
qed

text \<open>When every complaint can be scored, the list is scored, then sorted.\<close>

lemma score_and_sort_returns:
  assumes "\<forall>c \<in> set cs. \<exists>sc. score_complaint h c = Inr sc"
  shows "\<exists>scored out ks.
           list_all2 (\<lambda>c sc. score_complaint h c = Inr sc) cs scored \<and>
           score_and_sort_complaints h cs = Inr out \<and>
           mset out = mset scored \<and>
           map sort_key_of out = map Some ks \<and> sorted (rev ks) \<and>
           (\<forall>k. filter (\<lambda>x. sort_key_of x = Some k) out =
                filter (\<lambda>x. sort_key_of x = Some k) scored)"
proof -
  obtain scored where sc: "score_each h cs = Inr scored"
    using score_each_total[OF assms] by blast
  from sorted_reverse_spec[OF score_each_keys[OF sc]] obtain out ks where
    o: "sorted_reverse scored = Inr out" "mset out = mset scored"
       "map sort_key_of out = map Some ks" "sorted (rev ks)"
       "\<forall>k. filter (\<lambda>x. sort_key_of x = Some k) out = filter (\<lambda>x. sort_key_of x = Some k) scored"
    by blast
  have "score_and_sort_complaints h cs = Inr out"
    by (simp add: score_and_sort_complaints_def sc o(1))
  with score_each_Inr[OF sc] o show ?thesis by blast
qed

text \<open>When one cannot, the exception of the first such complaint ends the call.\<close>

lemma score_each_raises:
  assumes "\<forall>x \<in> set pre. \<exists>sc. score_complaint h x = Inr sc" "score_complaint h c = Inl e"
  shows "score_each h (pre @ c # post) = Inl e"
  using assms by (induction pre) auto

lemma score_and_sort_raises:
  assumes "\<forall>x \<in> set pre. \<exists>sc. score_complaint h x = Inr sc" "score_complaint h c = Inl e"
  shows "score_and_sort_complaints h (pre @ c # post) = Inl e"
  by (simp add: score_and_sort_complaints_def score_each_raises[OF assms])

text \<open>
  C8, as the code has it. For every list of complaints that can each be scored,
  \<open>score_and_sort_complaints\<close> returns the scored complaints (each the result of
  \<open>score_complaint\<close> on its own element), rearranged so that the totals descend; the sort
  is stable: for every total \<open>k\<close>, the complaints with total \<open>k\<close> stand in the output in
  the order they have in the input. For every other list it returns nothing: it raises
  what \<open>score_complaint\<close> raises on the first complaint that cannot be scored.
\<close>

theorem score_and_sort_stable:
  "((\<forall>c \<in> set cs. \<exists>sc. score_complaint h c = Inr sc) \<longrightarrow>
      (\<exists>scored out ks.
           list_all2 (\<lambda>c sc. score_complaint h c = Inr sc) cs scored \<and>
           score_and_sort_complaints h cs = Inr out \<and>
           mset out = mset scored \<and>
           map sort_key_of out = map Some ks \<and> sorted (rev ks) \<and>
           (\<forall>k. filter (\<lambda>x. sort_key_of x = Some k) out =
                filter (\<lambda>x. sort_key_of x = Some k) scored))) \<and>
   (\<forall>pre c post e.
      cs = pre @ c # post \<and> (\<forall>x \<in> set pre. \<exists>sc. score_complaint h x = Inr sc) \<and>
      score_complaint h c = Inl e \<longrightarrow>
      score_and_sort_complaints h cs = Inl e)"
proof (intro conjI impI allI)
  assume "\<forall>c \<in> set cs. \<exists>sc. score_complaint h c = Inr sc"
  then show "\<exists>scored out ks.
           list_all2 (\<lambda>c sc. score_complaint h c = Inr sc) cs scored \<and>
           score_and_sort_complaints h cs = Inr out \<and>
           mset out = mset scored \<and>
           map sort_key_of out = map Some ks \<and> sorted (rev ks) \<and>
           (\<forall>k. filter (\<lambda>x. sort_key_of x = Some k) out =
                filter (\<lambda>x. sort_key_of x = Some k) scored)"
    by (rule score_and_sort_returns)
next
  fix pre c post e
  assume a: "cs = pre @ c # post \<and> (\<forall>x \<in> set pre. \<exists>sc. score_complaint h x = Inr sc) \<and>
      score_complaint h c = Inl e"
  then have "score_and_sort_complaints h (pre @ c # post) = Inl e"
    by (intro score_and_sort_raises) simp_all
  with a show "score_and_sort_complaints h cs = Inl e" by simp
qed

text \<open>
  Three complaints on the example host: the first two both total 95, the third totals
  120. The third comes first, and the two equal ones keep their input order. With the
  priority of the second replaced by \<^verbatim>\<open>None\<close>, the call raises.
\<close>

theorem score_and_sort_stable_witness:
  "(\<exists>scored out ks.
      list_all2 (\<lambda>c sc. score_complaint example_host c = Inr sc)
        [[(''id'', PInt 1), (''priority'', PStr ''high'')],
         [(''id'', PInt 2), (''priority'', PStr ''HIGH'')],
         [(''id'', PInt 3), (''priority'', PStr ''urgent'')]] scored \<and>
      score_and_sort_complaints example_host
        [[(''id'', PInt 1), (''priority'', PStr ''high'')],
         [(''id'', PInt 2), (''priority'', PStr ''HIGH'')],
         [(''id'', PInt 3), (''priority'', PStr ''urgent'')]] = Inr out \<and>
      mset out = mset scored \<and>
      map sort_key_of out = map Some ks \<and> sorted (rev ks) \<and>
      (\<forall>k. filter (\<lambda>x. sort_key_of x = Some k) out =
           filter (\<lambda>x. sort_key_of x = Some k) scored)) \<and>
   score_and_sort_complaints example_host
     [[(''id'', PInt 1), (''priority'', PStr ''high'')],
      [(''id'', PInt 2), (''priority'', PStr ''HIGH'')],
      [(''id'', PInt 3), (''priority'', PStr ''urgent'')]]
   = Inr [[(''id'', PInt 3), (''priority'', PStr ''urgent''), (''priority_score'', PInt 120),
           (''priority_breakdown'', breakdown 100 20 0 0)],
          [(''id'', PInt 1), (''priority'', PStr ''high''), (''priority_score'', PInt 95),
           (''priority_breakdown'', breakdown 75 20 0 0)],
          [(''id'', PInt 2), (''priority'', PStr ''HIGH''), (''priority_score'', PInt 95),
           (''priority_breakdown'', breakdown 75 20 0 0)]] \<and>
   score_and_sort_complaints example_host
     ([[(''id'', PInt 1), (''priority'', PStr ''high'')]] @
      [(''id'', PInt 2), (''priority'', PNone)] #
      [[(''id'', PInt 3), (''priority'', PStr ''urgent'')]])
   = Inl (PyException ''AttributeError'' ''object has no attribute lower'')"
proof -
  let ?a = "[(''id'', PInt 1), (''priority'', PStr ''high'')]"
  let ?b = "[(''id'', PInt 2), (''priority'', PStr ''HIGH'')]"
  let ?c = "[(''id'', PInt 3), (''priority'', PStr ''urgent'')]"
  let ?x = "[(''id'', PInt 2), (''priority'', PNone)]"
  let ?e = "PyException ''AttributeError'' ''object has no attribute lower''"
  have a: "score_complaint example_host ?a
             = Inr [(''id'', PInt 1), (''priority'', PStr ''high''), (''priority_score'', PInt 95),
                    (''priority_breakdown'', breakdown 75 20 0 0)]"
    by code_simp
  have b: "score_complaint example_host ?b
             = Inr [(''id'', PInt 2), (''priority'', PStr ''HIGH''), (''priority_score'', PInt 95),
                    (''priority_breakdown'', breakdown 75 20 0 0)]"
    by code_simp
  have c: "score_complaint example_host ?c
             = Inr [(''id'', PInt 3), (''priority'', PStr ''urgent''), (''priority_score'', PInt 120),
                    (''priority_breakdown'', breakdown 100 20 0 0)]"
    by code_simp
  have x: "score_complaint example_host ?x = Inl ?e"
    by code_simp
  have h: "\<forall>x \<in> set [?a, ?b, ?c]. \<exists>sc. score_complaint example_host x = Inr sc"
    using a b c by simp
  have out: "score_and_sort_complaints example_host [?a, ?b, ?c]
     = Inr [[(''id'', PInt 3), (''priority'', PStr ''urgent''), (''priority_score'', PInt 120),
           (''priority_breakdown'', breakdown 100 20 0 0)],
          [(''id'', PInt 1), (''priority'', PStr ''high''), (''priority_score'', PInt 95),
           (''priority_breakdown'', breakdown 75 20 0 0)],
          [(''id'', PInt 2), (''priority'', PStr ''HIGH''), (''priority_score'', PInt 95),
           (''priority_breakdown'', breakdown 75 20 0 0)]]"
    by code_simp
  have g: "[?a] @ ?x # [?c] = [?a] @ ?x # [?c] \<and>
           (\<forall>y \<in> set [?a]. \<exists>sc. score_complaint example_host y = Inr sc) \<and>
           score_complaint example_host ?x = Inl ?e"
    using a x by simp
  note good = score_and_sort_stable[of "[?a, ?b, ?c]" example_host, THEN conjunct1, THEN mp, OF h]
  note bad = score_and_sort_stable[of "[?a] @ ?x # [?c]" example_host, THEN conjunct2,
               THEN spec, THEN spec, THEN spec, THEN spec, THEN mp, OF g]
  show ?thesis by (intro conjI good out bad)
qed

text \<open>
  C8 as stated fails: not every input list is returned sorted. A list that holds a
  complaint whose priority is \<^verbatim>\<open>None\<close> is not returned at all.
\<close>

theorem unscorable_complaint_ends_sorting:
  "score_and_sort_complaints example_host
     [[(''id'', PInt 1), (''priority'', PStr ''high'')],
      [(''id'', PInt 2), (''priority'', PNone)]]
   = Inl (PyException ''AttributeError'' ''object has no attribute lower'')"
  by code_simp

section \<open>Properties of the rate limiter\<close>

subsection \<open>Construction\<close>

text \<open>
  C3, as the code has it. The constructor validates nothing: for all four arguments,
  whatever their values, construction succeeds, the limiter stores the arguments as they
  are, both windows are empty and the lock is free.
\<close>

theorem RateLimiter_accepts_everything:
  "\<exists>s. RateLimiter rpm rph mr ird = Inr s \<and>
        requests_per_minute s = rpm \<and> requests_per_hour s = rph \<and>
        max_retries s = mr \<and> initial_retry_delay s = ird \<and>
        minute_requests s = [] \<and> hour_requests s = [] \<and> lock s = False"
  by (simp add: RateLimiter_def)

text \<open>
  C3 as stated fails: zero requests per minute, a negative hourly limit, a negative retry
  count and a negative delay are accepted.
\<close>

theorem RateLimiter_accepts_invalid:
  "RateLimiter 0 (- 1) (- 1) (- 1)
   = Inr \<lparr>requests_per_minute = 0, requests_per_hour = - 1, max_retries = - 1,
          initial_retry_delay = - 1, minute_requests = [], hour_requests = [],
          lock = False\<rparr>"
  by (simp add: RateLimiter_def)

subsection \<open>The waiting loop\<close>

lemma clean_config [simp]:
  "requests_per_minute (clean_old_requests s now) = requests_per_minute s"
  "requests_per_hour (clean_old_requests s now) = requests_per_hour s"
  "max_retries (clean_old_requests s now) = max_retries s"
  "initial_retry_delay (clean_old_requests s now) = initial_retry_delay s"
  "lock (clean_old_requests s now) = lock s"
  by (simp_all add: clean_old_requests_def Let_def)

lemma clean_windows:
  "minute_requests (clean_old_requests s now) = dropWhile (\<lambda>t. t < now - 60) (minute_requests s)"
  "hour_requests (clean_old_requests s now) = dropWhile (\<lambda>t. t < now - 3600) (hour_requests s)"
  by (simp_all add: clean_old_requests_def Let_def)

lemma can_make_request_eq:
  "can_make_request s w =
     (int (length (minute_requests (clean_old_requests s (clock w)))) < requests_per_minute s \<and>
      int (length (hour_requests (clean_old_requests s (clock w)))) < requests_per_hour s,
      clean_old_requests s (clock w))"
  by (simp add: can_make_request_def Let_def)

lemma get_wait_time_snd: "snd (get_wait_time s w) = clean_old_requests s (clock w)"
  by (simp add: get_wait_time_def Let_def split: list.splits)

lemma get_wait_time_nonneg: "0 \<le> fst (get_wait_time s w)"
  by (simp add: get_wait_time_def Let_def split: list.splits)

lemma list_upper_bound: "\<exists>B::real. \<forall>t \<in> set xs. t \<le> B"
proof (induction xs)
  case Nil
  show ?case by simp
next
  case (Cons x xs)
  then obtain B where "\<forall>t \<in> set xs. t \<le> B" by blast
  then have "\<forall>t \<in> set (x # xs). t \<le> max x B" by auto
  then show ?case by blast
qed

lemma wait_loop_step:
  assumes "\<not> fst (can_make_request s w)"
  shows "wait_loop s w =
           (let s2 = clean_old_requests (clean_old_requests s (clock w)) (clock w);
                wt = fst (get_wait_time (clean_old_requests s (clock w)) w);
                d = (if wt > 0 then wt + 0.1 else 0.1);
                w1 = w\<lparr>clock := clock w + d, trace := trace w @ [Sleep d]\<rparr>
            in wait_loop (if wt > 0 then clean_old_requests s2 (clock w1) else s2) w1)"
proof -
  obtain wt s2 where g: "get_wait_time (clean_old_requests s (clock w)) w = (wt, s2)"
    by (cases "get_wait_time (clean_old_requests s (clock w)) w")
  have s2: "s2 = clean_old_requests (clean_old_requests s (clock w)) (clock w)"
    using get_wait_time_snd[of "clean_old_requests s (clock w)" w] g by simp
  have wt: "0 \<le> wt" using get_wait_time_nonneg[of "clean_old_requests s (clock w)" w] g by simp
  show ?thesis
    using assms wt
    by (subst wait_loop.simps) (auto simp add: can_make_request_eq g s2 time_sleep_def Let_def)
qed

lemma wait_loop_stop:
  assumes "fst (can_make_request s w)"
  shows "wait_loop s w = Some (Inr (), clean_old_requests s (clock w), w)"
  using assms by (subst wait_loop.simps) (simp add: can_make_request_eq)

lemma clean_subset:
  "set (minute_requests (clean_old_requests s now)) \<subseteq> set (minute_requests s)"
  "set (hour_requests (clean_old_requests s now)) \<subseteq> set (hour_requests s)"
  by (auto simp: clean_windows dest: set_dropWhileD)

lemma clean_head:
  "minute_requests (clean_old_requests s now) \<noteq> [] \<Longrightarrow>
     now - 60 \<le> hd (minute_requests (clean_old_requests s now))"
  "hour_requests (clean_old_requests s now) \<noteq> [] \<Longrightarrow>
     now - 3600 \<le> hd (hour_requests (clean_old_requests s now))"
  using hd_dropWhile[of "\<lambda>t. t < now - 60" "minute_requests s"]
        hd_dropWhile[of "\<lambda>t. t < now - 3600" "hour_requests s"]
  by (auto simp: clean_windows)

lemma measure_decreases:
  fixes B c d :: real
  assumes "c \<le> B" "1 / 10 \<le> d"
  shows "nat (\<lceil>(B - (c + d)) * 10\<rceil> + 1) < nat (\<lceil>(B - c) * 10\<rceil> + 1)"
proof -
  have "(B - (c + d)) * 10 \<le> (B - c) * 10 - 1" using assms by simp
  then have "\<lceil>(B - (c + d)) * 10\<rceil> \<le> \<lceil>(B - c) * 10 - 1\<rceil>" by (rule ceiling_mono)
  also have "\<dots> = \<lceil>(B - c) * 10\<rceil> - 1" by simp
  finally have 1: "\<lceil>(B - (c + d)) * 10\<rceil> + 1 \<le> \<lceil>(B - c) * 10\<rceil>" by simp
  have "0 \<le> \<lceil>(B - c) * 10\<rceil>" using assms by (simp add: ceiling_le_iff le_ceiling_iff)
  with 1 show ?thesis by linarith
qed

lemma wait_loop_rule_bounded:
  assumes clean: "\<And>s w. P s w \<Longrightarrow> P (clean_old_requests s (clock w)) w"
      and sleep: "\<And>s w d. P s w \<Longrightarrow> 1 / 10 \<le> d \<Longrightarrow>
                    P s (w\<lparr>clock := clock w + d, trace := trace w @ [Sleep d]\<rparr>)"
  shows "1 \<le> requests_per_minute s \<Longrightarrow> 1 \<le> requests_per_hour s \<Longrightarrow> P s w \<Longrightarrow>
         \<forall>t \<in> set (minute_requests s). t + 60 \<le> B \<Longrightarrow>
         \<forall>t \<in> set (hour_requests s). t + 3600 \<le> B \<Longrightarrow>
         \<exists>s' w'. wait_loop s w = Some (Inr (), s', w') \<and> P s' w' \<and>
           int (length (minute_requests s')) < requests_per_minute s' \<and>
           int (length (hour_requests s')) < requests_per_hour s'"
proof (induction "nat (\<lceil>(B - clock w) * 10\<rceil> + 1)" arbitrary: s w rule: less_induct)
  case less
  let ?s1 = "clean_old_requests s (clock w)"
  show ?case
  proof (cases "fst (can_make_request s w)")
    case True
    have "P ?s1 w" using less.prems(3) by (rule clean)
    with True wait_loop_stop[OF True] show ?thesis
      by (auto simp: can_make_request_eq)
  next
    case False
    define wt where "wt = fst (get_wait_time ?s1 w)"
    define d where "d = (if wt > 0 then wt + 0.1 else 0.1)"
    define w1 where "w1 = w\<lparr>clock := clock w + d, trace := trace w @ [Sleep d]\<rparr>"
    define s2 where "s2 = clean_old_requests ?s1 (clock w)"
    define s3 where "s3 = (if wt > 0 then clean_old_requests s2 (clock w1) else s2)"
    have step: "wait_loop s w = wait_loop s3 w1"
      using wait_loop_step[OF False] by (simp add: Let_def wt_def d_def w1_def s2_def s3_def)
    have wt0: "0 \<le> wt" unfolding wt_def by (rule get_wait_time_nonneg)
    have d: "1 / 10 \<le> d" using wt0 by (simp add: d_def)
    have P2: "P s2 w" unfolding s2_def using less.prems(3) by (intro clean)
    have P2': "P s2 w1" unfolding w1_def using P2 d by (rule sleep)
    have P3: "P s3 w1" unfolding s3_def using P2' clean[OF P2'] by simp
    have cfg: "requests_per_minute s3 = requests_per_minute s"
              "requests_per_hour s3 = requests_per_hour s"
      by (simp_all add: s3_def s2_def)
    have sub: "set (minute_requests s3) \<subseteq> set (minute_requests s)"
              "set (hour_requests s3) \<subseteq> set (hour_requests s)"
      using clean_subset[of s "clock w"] clean_subset[of ?s1 "clock w"]
            clean_subset[of s2 "clock w1"]
      by (auto simp: s3_def s2_def)
    have nonempty: "minute_requests ?s1 \<noteq> [] \<or> hour_requests ?s1 \<noteq> []"
      using False less.prems(1,2) by (auto simp: can_make_request_eq)
    have cB: "clock w \<le> B"
    proof -
      from nonempty show ?thesis
      proof
        assume ne: "minute_requests ?s1 \<noteq> []"
        then have "hd (minute_requests ?s1) \<in> set (minute_requests s)"
          using clean_subset(1)[of s "clock w"] by auto
        then have "hd (minute_requests ?s1) + 60 \<le> B" using less.prems(4) by blast
        with clean_head(1)[OF ne] show ?thesis by linarith
      next
        assume ne: "hour_requests ?s1 \<noteq> []"
        then have "hd (hour_requests ?s1) \<in> set (hour_requests s)"
          using clean_subset(2)[of s "clock w"] by auto
        then have "hd (hour_requests ?s1) + 3600 \<le> B" using less.prems(5) by blast
        with clean_head(2)[OF ne] show ?thesis by linarith
      qed
    qed
    have m: "nat (\<lceil>(B - clock w1) * 10\<rceil> + 1) < nat (\<lceil>(B - clock w) * 10\<rceil> + 1)"
      using measure_decreases[OF cB d] by (simp add: w1_def)
    have "\<exists>s' w'. wait_loop s3 w1 = Some (Inr (), s', w') \<and> P s' w' \<and>
           int (length (minute_requests s')) < requests_per_minute s' \<and>
           int (length (hour_requests s')) < requests_per_hour s'"
    proof (rule less.hyps[OF m _ _ P3])
      show "1 \<le> requests_per_minute s3" "1 \<le> requests_per_hour s3"
        using cfg less.prems(1,2) by simp_all
      show "\<forall>t \<in> set (minute_requests s3). t + 60 \<le> B"
        using sub(1) less.prems(4) by blast
      show "\<forall>t \<in> set (hour_requests s3). t + 3600 \<le> B"
        using sub(2) less.prems(5) by blast
    qed
    then show ?thesis by (simp add: step)
  qed
qed

lemma wait_loop_rule:
  assumes clean: "\<And>s w. P s w \<Longrightarrow> P (clean_old_requests s (clock w)) w"
      and sleep: "\<And>s w d. P s w \<Longrightarrow> 1 / 10 \<le> d \<Longrightarrow>
                    P s (w\<lparr>clock := clock w + d, trace := trace w @ [Sleep d]\<rparr>)"
      and pos: "1 \<le> requests_per_minute s" "1 \<le> requests_per_hour s"
      and init: "P s w"
  shows "\<exists>s' w'. wait_loop s w = Some (Inr (), s', w') \<and> P s' w' \<and>
           int (length (minute_requests s')) < requests_per_minute s' \<and>
           int (length (hour_requests s')) < requests_per_hour s'"
proof -
  obtain B1 where B1: "\<forall>t \<in> set (minute_requests s). t \<le> B1"
    using list_upper_bound by blast
  obtain B2 where B2: "\<forall>t \<in> set (hour_requests s). t \<le> B2"
    using list_upper_bound by blast
  let ?B = "max (B1 + 60) (B2 + 3600)"
  have "\<forall>t \<in> set (minute_requests s). t + 60 \<le> ?B" using B1 by auto
  moreover have "\<forall>t \<in> set (hour_requests s). t + 3600 \<le> ?B" using B2 by auto
  ultimately show ?thesis
    using wait_loop_rule_bounded[of P s w ?B, OF clean sleep pos init] by blast
qed

subsection \<open>Admission\<close>

lemma purged_refl: "purged width now xs xs"
  by (simp add: purged_def)

lemma purged_later: "purged width now xs ys \<Longrightarrow> now \<le> now' \<Longrightarrow> purged width now' xs ys"
  by (fastforce simp: purged_def)

lemma purged_dropWhile:
  assumes "purged width now xs ys"
  shows "purged width now xs (dropWhile (\<lambda>t. t < now - width) ys)"
proof -
  from assms obtain old where o: "xs = old @ ys" "\<forall>t \<in> set old. t < now - width"
    by (auto simp: purged_def)
  let ?p = "\<lambda>t. t < now - width"
  have "xs = (old @ takeWhile ?p ys) @ dropWhile ?p ys" using o(1) by simp
  moreover have "\<forall>t \<in> set (old @ takeWhile ?p ys). t < now - width"
    using o(2) by (auto dest: set_takeWhileD)
  ultimately show ?thesis unfolding purged_def by blast
qed

lemma purged_append:
  "purged width now xs ys \<Longrightarrow> purged width now (xs @ zs) (ys @ zs)"
  by (auto simp: purged_def)

lemma waiting_clean:
  assumes "waiting s w s' w'"
  shows "waiting s w (clean_old_requests s' (clock w')) w'"
  using assms by (auto simp: waiting_def clean_windows intro: purged_dropWhile)

lemma waiting_sleep:
  assumes "waiting s w s' w'" "1 / 10 \<le> d"
  shows "waiting s w s' (w'\<lparr>clock := clock w' + d, trace := trace w' @ [Sleep d]\<rparr>)"
proof -
  let ?w = "w'\<lparr>clock := clock w' + d, trace := trace w' @ [Sleep d]\<rparr>"
  from assms(1) obtain ds where ds: "trace w' = trace w @ Acquire # map Sleep ds"
    "\<forall>d \<in> set ds. 0 < d" "clock w' = clock w + sum_list ds"
    unfolding waiting_def by blast
  have "trace ?w = trace w @ Acquire # map Sleep (ds @ [d]) \<and>
        (\<forall>x \<in> set (ds @ [d]). 0 < x) \<and> clock ?w = clock w + sum_list (ds @ [d])"
    using ds assms(2) by auto
  then have e: "\<exists>ds. trace ?w = trace w @ Acquire # map Sleep ds \<and> (\<forall>d \<in> set ds. 0 < d) \<and>
           clock ?w = clock w + sum_list ds"
    by (rule exI)
  have p: "purged 60 (clock ?w) (minute_requests s) (minute_requests s')"
    "purged 3600 (clock ?w) (hour_requests s) (hour_requests s')"
    using assms by (auto simp: waiting_def intro: purged_later)
  have c: "requests_per_minute s' = requests_per_minute s \<and>
     requests_per_hour s' = requests_per_hour s \<and>
     max_retries s' = max_retries s \<and>
     initial_retry_delay s' = initial_retry_delay s \<and> lock s'"
    using assms(1) unfolding waiting_def by blast
  show ?thesis unfolding waiting_def using c e p by blast
qed

lemma wait_if_needed_spec:
  assumes pos: "1 \<le> requests_per_minute s" "1 \<le> requests_per_hour s"
      and free: "\<not> lock s"
  shows "\<exists>s' w' ds. wait_if_needed s w = Some (Inr (), s', w') \<and>
           requests_per_minute s' = requests_per_minute s \<and>
           requests_per_hour s' = requests_per_hour s \<and>
           max_retries s' = max_retries s \<and>
           initial_retry_delay s' = initial_retry_delay s \<and>
           \<not> lock s' \<and>
           trace w' = trace w @ Acquire # map Sleep ds @ [Release] \<and>
           (\<forall>d \<in> set ds. 0 < d) \<and>
           clock w' = clock w + sum_list ds \<and>
           purged 60 (clock w') (minute_requests s @ [clock w']) (minute_requests s') \<and>
           purged 3600 (clock w') (hour_requests s @ [clock w']) (hour_requests s') \<and>
           int (length (minute_requests s')) \<le> requests_per_minute s \<and>
           int (length (hour_requests s')) \<le> requests_per_hour s"
proof -
  let ?s0 = "s\<lparr>lock := True\<rparr>"
  let ?w0 = "w\<lparr>trace := trace w @ [Acquire]\<rparr>"
  have "trace ?w0 = trace w @ Acquire # map Sleep [] \<and> (\<forall>d \<in> set []. 0 < (d::real)) \<and>
        clock ?w0 = clock w + sum_list []"
    by simp
  then have "\<exists>ds. trace ?w0 = trace w @ Acquire # map Sleep ds \<and> (\<forall>d \<in> set ds. 0 < d) \<and>
        clock ?w0 = clock w + sum_list ds"
    by (rule exI)
  then have init: "waiting s w ?s0 ?w0"
    unfolding waiting_def by (simp add: purged_refl)
  have pos0: "1 \<le> requests_per_minute ?s0" "1 \<le> requests_per_hour ?s0"
    using pos by simp_all
  from wait_loop_rule[of "waiting s w" ?s0 ?w0, OF waiting_clean waiting_sleep pos0 init]
  obtain s1 w1 where
    l: "wait_loop ?s0 ?w0 = Some (Inr (), s1, w1)" and
    i: "waiting s w s1 w1" and
    m: "int (length (minute_requests s1)) < requests_per_minute s1" and
    h: "int (length (hour_requests s1)) < requests_per_hour s1"
    by blast
  from i obtain ds where ds: "trace w1 = trace w @ Acquire # map Sleep ds"
    "\<forall>d \<in> set ds. 0 < d" "clock w1 = clock w + sum_list ds"
    unfolding waiting_def by blast
  from i have c: "requests_per_minute s1 = requests_per_minute s"
     "requests_per_hour s1 = requests_per_hour s"
     "max_retries s1 = max_retries s"
     "initial_retry_delay s1 = initial_retry_delay s"
     and pm: "purged 60 (clock w1) (minute_requests s) (minute_requests s1)"
     and ph: "purged 3600 (clock w1) (hour_requests s) (hour_requests s1)"
    unfolding waiting_def by blast+
  let ?s' = "s1\<lparr>minute_requests := minute_requests s1 @ [clock w1],
                 hour_requests := hour_requests s1 @ [clock w1], lock := False\<rparr>"
  let ?w' = "w1\<lparr>trace := trace w1 @ [Release]\<rparr>"
  have r: "wait_if_needed s w = Some (Inr (), ?s', ?w')"
    using free l by (simp add: wait_if_needed_def Let_def)
  have p: "purged 60 (clock ?w') (minute_requests s @ [clock ?w']) (minute_requests ?s')"
    "purged 3600 (clock ?w') (hour_requests s @ [clock ?w']) (hour_requests ?s')"
    using pm ph by (simp_all add: purged_append)
  have t: "trace ?w' = trace w @ Acquire # map Sleep ds @ [Release]"
    using ds(1) by simp
  have k: "clock ?w' = clock w + sum_list ds" using ds(3) by simp
  have n: "int (length (minute_requests ?s')) \<le> requests_per_minute s"
    "int (length (hour_requests ?s')) \<le> requests_per_hour s"
    using m h c by simp_all
  have c': "requests_per_minute ?s' = requests_per_minute s"
     "requests_per_hour ?s' = requests_per_hour s"
     "max_retries ?s' = max_retries s"
     "initial_retry_delay ?s' = initial_retry_delay s" "\<not> lock ?s'"
    using c by simp_all
  show ?thesis
    using r c' t ds(2) k p n by blast
qed

subsection \<open>The lock and the sleeps\<close>

lemma sleeps_with_lock_locked:
  "sleeps_with_lock True (map Sleep ds @ Release # es) = map (\<lambda>d. (d, True)) ds @ sleeps_with_lock False es"
  by (induction ds) simp_all

text \<open>
  C4, as the code has it. \<^verbatim>\<open>with self.lock:\<close> encloses the whole loop of
  \<open>wait_if_needed\<close>. For every limiter with positive limits whose lock is free, the call
  returns, and its part of the trace is \<open>Acquire\<close>, then the sleeps, then \<open>Release\<close>:
  the lock is taken once on entry and released once on return, and every sleep of the
  call happens while the lock is held, so that other callers wait for the lock for as long
  as this one sleeps.
\<close>

theorem admit_sleeps_holding_lock:
  assumes "1 \<le> requests_per_minute s" "1 \<le> requests_per_hour s" "\<not> lock s"
  shows "\<exists>s' w' ds. wait_if_needed s w = Some (Inr (), s', w') \<and> \<not> lock s' \<and>
           trace w' = trace w @ Acquire # map Sleep ds @ [Release] \<and>
           sleeps_with_lock False (Acquire # map Sleep ds @ [Release]) = map (\<lambda>d. (d, True)) ds"
proof -
  from wait_if_needed_spec[OF assms, of w] obtain s' w' ds where
    "wait_if_needed s w = Some (Inr (), s', w')" "\<not> lock s'"
    "trace w' = trace w @ Acquire # map Sleep ds @ [Release]"
    by blast
  moreover have "sleeps_with_lock False (Acquire # map Sleep ds @ [Release]) = map (\<lambda>d. (d, True)) ds"
    by (simp add: sleeps_with_lock_locked)
  ultimately show ?thesis by blast
qed

text \<open>The same call as an instance of the theorem.\<close>

theorem admit_sleeps_holding_lock_witness:
  "\<exists>s' w' ds. wait_if_needed busy_limiter \<lparr>clock = 10, trace = []\<rparr> = Some (Inr (), s', w') \<and>
      \<not> lock s' \<and>
      trace w' = trace \<lparr>clock = 10, trace = []\<rparr> @ Acquire # map Sleep ds @ [Release] \<and>
      sleeps_with_lock False (Acquire # map Sleep ds @ [Release]) = map (\<lambda>d. (d, True)) ds"
proof -
  have h: "1 \<le> requests_per_minute busy_limiter" "1 \<le> requests_per_hour busy_limiter"
    "\<not> lock busy_limiter"
    by (simp_all add: busy_limiter_def)
  show ?thesis by (rule admit_sleeps_holding_lock[OF h])
qed

text \<open>
  C4 as stated fails: the limiter allows one request per minute and admitted one at time
  0; a call at time 10 sleeps 50.1 seconds between \<open>Acquire\<close> and \<open>Release\<close>.
\<close>

theorem busy_admit_sleeps_holding_lock:
  "wait_if_needed busy_limiter \<lparr>clock = 10, trace = []\<rparr>
     = Some (Inr (),
             \<lparr>requests_per_minute = 1, requests_per_hour = 1500, max_retries = 5,
              initial_retry_delay = 1, minute_requests = [601 / 10],
              hour_requests = [0, 601 / 10], lock = False\<rparr>,
             \<lparr>clock = 601 / 10, trace = [Acquire, Sleep (501 / 10), Release]\<rparr>) \<and>
   sleeps_with_lock False [Acquire, Sleep (501 / 10), Release] = [(501 / 10, True)]"
  by code_simp

subsection \<open>The window invariant\<close>

lemma purged_trans:
  "purged width now xs ys \<Longrightarrow> purged width now ys zs \<Longrightarrow> purged width now xs zs"
proof -
  assume "purged width now xs ys" "purged width now ys zs"
  then obtain o1 o2 where o: "xs = o1 @ ys" "\<forall>t \<in> set o1. t < now - width"
    "ys = o2 @ zs" "\<forall>t \<in> set o2. t < now - width"
    unfolding purged_def by blast
  then have "xs = (o1 @ o2) @ zs \<and> (\<forall>t \<in> set (o1 @ o2). t < now - width)" by auto
  then show ?thesis unfolding purged_def by blast
qed

lemma purged_filter_length:
  assumes "purged width now xs ys"
  shows "length (filter (\<lambda>t. now - width \<le> t) xs) \<le> length ys"
proof -
  from assms obtain old where o: "xs = old @ ys" "\<forall>t \<in> set old. t < now - width"
    unfolding purged_def by blast
  have "filter (\<lambda>t. now - width \<le> t) old = []"
    using o(2) by (auto simp: filter_empty_conv)
  then have "filter (\<lambda>t. now - width \<le> t) xs = filter (\<lambda>t. now - width \<le> t) ys"
    using o(1) by simp
  then show ?thesis by simp
qed

lemma admit_all_invariant:
  assumes "\<forall>g \<in> set gaps. 0 \<le> g"
      and "1 \<le> requests_per_minute s" "1 \<le> requests_per_hour s" "\<not> lock s"
      and "purged 60 (clock w) hist (minute_requests s)"
      and "purged 3600 (clock w) hist (hour_requests s)"
      and "int (length (minute_requests s)) \<le> requests_per_minute s"
      and "int (length (hour_requests s)) \<le> requests_per_hour s"
  shows "\<exists>ts s' w'. admit_all gaps s w = Some (Inr ts, s', w') \<and> length ts = length gaps \<and>
           requests_per_minute s' = requests_per_minute s \<and>
           requests_per_hour s' = requests_per_hour s \<and>
           purged 60 (clock w') (hist @ ts) (minute_requests s') \<and>
           purged 3600 (clock w') (hist @ ts) (hour_requests s') \<and>
           int (length (minute_requests s')) \<le> requests_per_minute s \<and>
           int (length (hour_requests s')) \<le> requests_per_hour s \<and>
           (ts \<noteq> [] \<longrightarrow> last ts = clock w')"
  using assms
proof (induction gaps arbitrary: s w hist)
  case Nil
  then show ?case by simp
next
  case (Cons gap gaps)
  let ?wg = "w\<lparr>clock := clock w + gap\<rparr>"
  have g: "0 \<le> gap" using Cons.prems(1) by simp
  from wait_if_needed_spec[OF Cons.prems(2,3,4), of ?wg] obtain s1 w1 ds where
    r: "wait_if_needed s ?wg = Some (Inr (), s1, w1)" and
    c: "requests_per_minute s1 = requests_per_minute s"
       "requests_per_hour s1 = requests_per_hour s" "\<not> lock s1" and
    ds: "\<forall>d \<in> set ds. 0 < d" "clock w1 = clock ?wg + sum_list ds" and
    pm: "purged 60 (clock w1) (minute_requests s @ [clock w1]) (minute_requests s1)" and
    ph: "purged 3600 (clock w1) (hour_requests s @ [clock w1]) (hour_requests s1)" and
    n: "int (length (minute_requests s1)) \<le> requests_per_minute s"
       "int (length (hour_requests s1)) \<le> requests_per_hour s"
    by blast
  have "0 \<le> sum_list ds" using ds(1) by (intro sum_list_nonneg) (auto intro: less_imp_le)
  then have later: "clock w \<le> clock w1" using ds(2) g by simp
  have hm: "purged 60 (clock w1) (hist @ [clock w1]) (minute_requests s1)"
    using purged_trans[OF purged_append[OF purged_later[OF Cons.prems(5) later]] pm] .
  have hh: "purged 3600 (clock w1) (hist @ [clock w1]) (hour_requests s1)"
    using purged_trans[OF purged_append[OF purged_later[OF Cons.prems(6) later]] ph] .
  have "\<forall>g \<in> set gaps. 0 \<le> g" using Cons.prems(1) by simp
  from Cons.IH[OF this _ _ c(3) hm hh] c n Cons.prems(2,3)
  obtain ts s' w' where
    a: "admit_all gaps s1 w1 = Some (Inr ts, s', w')" "length ts = length gaps" and
    c': "requests_per_minute s' = requests_per_minute s"
        "requests_per_hour s' = requests_per_hour s" and
    p': "purged 60 (clock w') ((hist @ [clock w1]) @ ts) (minute_requests s')"
        "purged 3600 (clock w') ((hist @ [clock w1]) @ ts) (hour_requests s')" and
    n': "int (length (minute_requests s')) \<le> requests_per_minute s"
        "int (length (hour_requests s')) \<le> requests_per_hour s" and
    l': "ts \<noteq> [] \<longrightarrow> last ts = clock w'"
    by auto
  have res: "admit_all (gap # gaps) s w = Some (Inr (clock w1 # ts), s', w')"
    using r a(1) by simp
  have "ts = [] \<Longrightarrow> w' = w1" using a by (cases gaps) auto
  then have last: "last (clock w1 # ts) = clock w'" using l' by auto
  show ?case
    using res a(2) c' p' n' last by (intro exI[of _ "clock w1 # ts"] exI[of _ s'] exI[of _ w']) simp
qed

text \<open>
  C5. A limiter is constructed with positive limits and then used for any sequence of
  calls of \<open>wait_if_needed\<close>, with any non-negative time between them. Every call
  returns. When the last one has returned, at most \<open>requests_per_minute\<close> of all
  admission instants lie within the last 60 seconds and at most \<open>requests_per_hour\<close>
  within the last 3600 seconds, and the windows hold no more entries than the limits
  allow. Each window consists of all admission instants except for some of the first ones,
  each older than the window's width: an instant enters both windows when its call is
  admitted and leaves a window only by the purge. The last instant is the present.
\<close>

theorem window_invariant:
  assumes "1 \<le> rpm" "1 \<le> rph" "RateLimiter rpm rph mr ird = Inr s0" "\<forall>g \<in> set gaps. 0 \<le> g"
  shows "\<exists>ts s w. admit_all gaps s0 w0 = Some (Inr ts, s, w) \<and> length ts = length gaps \<and>
           int (length (filter (\<lambda>t. clock w - 60 \<le> t) ts)) \<le> rpm \<and>
           int (length (filter (\<lambda>t. clock w - 3600 \<le> t) ts)) \<le> rph \<and>
           int (length (minute_requests s)) \<le> rpm \<and>
           int (length (hour_requests s)) \<le> rph \<and>
           purged 60 (clock w) ts (minute_requests s) \<and>
           purged 3600 (clock w) ts (hour_requests s) \<and>
           (ts \<noteq> [] \<longrightarrow> last ts = clock w)"
proof -
  have s0: "requests_per_minute s0 = rpm" "requests_per_hour s0 = rph" "\<not> lock s0"
    "minute_requests s0 = []" "hour_requests s0 = []"
    using assms(3) by (auto simp: RateLimiter_def)
  have i: "purged 60 (clock w0) [] (minute_requests s0)"
    "purged 3600 (clock w0) [] (hour_requests s0)"
    "int (length (minute_requests s0)) \<le> requests_per_minute s0"
    "int (length (hour_requests s0)) \<le> requests_per_hour s0"
    "1 \<le> requests_per_minute s0" "1 \<le> requests_per_hour s0"
    using s0 assms(1,2) by (simp_all add: purged_refl)
  from admit_all_invariant[OF assms(4) i(5,6) s0(3) i(1,2,3,4)]
  obtain ts s w where
    a: "admit_all gaps s0 w0 = Some (Inr ts, s, w)" "length ts = length gaps" and
    p: "purged 60 (clock w) ts (minute_requests s)" "purged 3600 (clock w) ts (hour_requests s)" and
    n: "int (length (minute_requests s)) \<le> rpm" "int (length (hour_requests s)) \<le> rph" and
    l: "ts \<noteq> [] \<longrightarrow> last ts = clock w"
    using s0(1,2) by auto
  have f: "int (length (filter (\<lambda>t. clock w - 60 \<le> t) ts)) \<le> rpm"
    "int (length (filter (\<lambda>t. clock w - 3600 \<le> t) ts)) \<le> rph"
    using purged_filter_length[OF p(1)] purged_filter_length[OF p(2)] n by linarith+
  show ?thesis using a p n l f by blast
qed

text \<open>
  Two requests per minute; calls at the times 0, 5 and 10. The third call waits until
  60.1, when the entry of time 0 has left the minute window.
\<close>

theorem window_invariant_witness:
  "(\<exists>ts s w.
      admit_all [0, 5, 5]
        \<lparr>requests_per_minute = 2, requests_per_hour = 1500, max_retries = 5,
         initial_retry_delay = 1, minute_requests = [], hour_requests = [], lock = False\<rparr>
        \<lparr>clock = 0, trace = []\<rparr> = Some (Inr ts, s, w) \<and>
      length ts = length [0, 5, 5 :: real] \<and>
      int (length (filter (\<lambda>t. clock w - 60 \<le> t) ts)) \<le> 2 \<and>
      int (length (filter (\<lambda>t. clock w - 3600 \<le> t) ts)) \<le> 1500 \<and>
      int (length (minute_requests s)) \<le> 2 \<and>
      int (length (hour_requests s)) \<le> 1500 \<and>
      purged 60 (clock w) ts (minute_requests s) \<and>
      purged 3600 (clock w) ts (hour_requests s) \<and>
      (ts \<noteq> [] \<longrightarrow> last ts = clock w)) \<and>
   admit_all [0, 5, 5]
     \<lparr>requests_per_minute = 2, requests_per_hour = 1500, max_retries = 5,
      initial_retry_delay = 1, minute_requests = [], hour_requests = [], lock = False\<rparr>
     \<lparr>clock = 0, trace = []\<rparr>
   = Some (Inr [0, 5, 601 / 10],
           \<lparr>requests_per_minute = 2, requests_per_hour = 1500, max_retries = 5,
            initial_retry_delay = 1, minute_requests = [5, 601 / 10],
            hour_requests = [0, 5, 601 / 10], lock = False\<rparr>,
           \<lparr>clock = 601 / 10,
            trace = [Acquire, Release, Acquire, Release, Acquire, Sleep (501 / 10), Release]\<rparr>)"
proof -
  have h: "(1::int) \<le> 2" "(1::int) \<le> 1500"
    "RateLimiter 2 1500 5 1 =
       Inr \<lparr>requests_per_minute = 2, requests_per_hour = 1500, max_retries = 5,
         initial_retry_delay = 1, minute_requests = [], hour_requests = [], lock = False\<rparr>"
    "\<forall>g \<in> set [0, 5, 5 :: real]. 0 \<le> g"
    by (simp_all add: RateLimiter_def)
  have e: "admit_all [0, 5, 5]
     \<lparr>requests_per_minute = 2, requests_per_hour = 1500, max_retries = 5,
      initial_retry_delay = 1, minute_requests = [], hour_requests = [], lock = False\<rparr>
     \<lparr>clock = 0, trace = []\<rparr>
   = Some (Inr [0, 5, 601 / 10],
           \<lparr>requests_per_minute = 2, requests_per_hour = 1500, max_retries = 5,
            initial_retry_delay = 1, minute_requests = [5, 601 / 10],
            hour_requests = [0, 5, 601 / 10], lock = False\<rparr>,
           \<lparr>clock = 601 / 10,
            trace = [Acquire, Release, Acquire, Release, Acquire, Sleep (501 / 10), Release]\<rparr>)"
    by code_simp
  show ?thesis by (rule conjI[OF window_invariant[OF h] e])
qed

subsection \<open>Retrying\<close>

lemma sleeps_admit_segment:
  "sleeps_with_lock False ((Acquire # map Sleep ds @ [Release]) @ es)
     = map (\<lambda>d. (d, True)) ds @ sleeps_with_lock False es"
  by (simp add: sleeps_with_lock_locked)

lemma backoff_admit_segment:
  "backoff_delays ((Acquire # map Sleep ds @ [Release]) @ es) = backoff_delays es"
  unfolding backoff_delays_def sleeps_admit_segment by (simp add: filter_empty_conv)

lemma backoff_simps:
  "backoff_delays [] = []"
  "backoff_delays (Invoke # es) = backoff_delays es"
  "backoff_delays (Sleep d # es) = d # backoff_delays es"
  by (simp_all add: backoff_delays_def)

lemma invocations_admit_segment:
  "invocations ((Acquire # map Sleep ds @ [Release]) @ es) = invocations es"
  by (simp add: invocations_def filter_empty_conv image_iff)

lemma invocations_simps:
  "invocations [] = 0"
  "invocations (Invoke # es) = Suc (invocations es)"
  "invocations (Sleep d # es) = invocations es"
  by (simp_all add: invocations_def)

lemma retry_loop_refines:
  assumes "1 \<le> requests_per_minute s" "1 \<le> requests_per_hour s" "\<not> lock s"
  shows "\<exists>r s' w' seg. retry_loop func as d s w = Some (r, s', w') \<and>
           trace w' = trace w @ seg \<and>
           retry_plan func (max_retries s) as d = (r, invocations seg, backoff_delays seg)"
  using assms
proof (induction as arbitrary: d s w)
  case Nil
  show ?case by (simp add: invocations_simps backoff_simps)
next
  case (Cons attempt rest)
  from wait_if_needed_spec[OF Cons.prems, of w] obtain s1 w1 ds where
    r: "wait_if_needed s w = Some (Inr (), s1, w1)" and
    c: "requests_per_minute s1 = requests_per_minute s"
       "requests_per_hour s1 = requests_per_hour s"
       "max_retries s1 = max_retries s" "\<not> lock s1" and
    t: "trace w1 = trace w @ (Acquire # map Sleep ds @ [Release])"
    by auto
  let ?a = "Acquire # map Sleep ds @ [Release]"
  let ?w2 = "w1\<lparr>trace := trace w1 @ [Invoke]\<rparr>"
  show ?case
  proof (cases "func (nat attempt)")
    case (Inr x)
    have "retry_loop func (attempt # rest) d s w = Some (Inr (Some x), s1, ?w2)"
      using r Inr by simp
    moreover have "trace ?w2 = trace w @ (?a @ [Invoke])" using t by simp
    moreover have "retry_plan func (max_retries s) (attempt # rest) d
                     = (Inr (Some x), invocations (?a @ [Invoke]), backoff_delays (?a @ [Invoke]))"
      unfolding invocations_admit_segment backoff_admit_segment
      using Inr by (simp add: invocations_simps backoff_simps)
    ultimately show ?thesis by blast
  next
    case (Inl e)
    show ?thesis
    proof (cases "is_Exception e \<and> is_rate_limit e \<and> attempt < max_retries s")
      case False
      have "retry_loop func (attempt # rest) d s w = Some (Inl e, s1, ?w2)"
        using r Inl False c(3) by auto
      moreover have "trace ?w2 = trace w @ (?a @ [Invoke])" using t by simp
      moreover have "retry_plan func (max_retries s) (attempt # rest) d
                       = (Inl e, invocations (?a @ [Invoke]), backoff_delays (?a @ [Invoke]))"
        unfolding invocations_admit_segment backoff_admit_segment
        using Inl False by (auto simp add: invocations_simps backoff_simps)
      ultimately show ?thesis by blast
    next
      case True
      show ?thesis
      proof (cases "d < 0")
        case neg: True
        let ?v = "PyException ''ValueError'' ''sleep length must be non-negative''"
        have "retry_loop func (attempt # rest) d s w = Some (Inl ?v, s1, ?w2)"
          using r Inl True c(3) neg by (simp add: time_sleep_def)
        moreover have "trace ?w2 = trace w @ (?a @ [Invoke])" using t by simp
        moreover have "retry_plan func (max_retries s) (attempt # rest) d
                       = (Inl ?v, invocations (?a @ [Invoke]), backoff_delays (?a @ [Invoke]))"
          unfolding invocations_admit_segment backoff_admit_segment
          using Inl True neg by (simp add: invocations_simps backoff_simps)
        ultimately show ?thesis by blast
      next
        case nonneg: False
        let ?w3 = "?w2\<lparr>clock := clock ?w2 + d, trace := trace ?w2 @ [Sleep d]\<rparr>"
        have c1: "1 \<le> requests_per_minute s1" "1 \<le> requests_per_hour s1"
          using c Cons.prems by simp_all
        from Cons.IH[OF c1 c(4), of "min (d * 2) 60" ?w3] obtain r' s' w' seg where
          i: "retry_loop func rest (min (d * 2) 60) s1 ?w3 = Some (r', s', w')"
             "trace w' = trace ?w3 @ seg"
             "retry_plan func (max_retries s1) rest (min (d * 2) 60)
                = (r', invocations seg, backoff_delays seg)"
          by blast
        have "retry_loop func (attempt # rest) d s w = Some (r', s', w')"
          using r Inl True c(3) nonneg i(1) by (simp add: time_sleep_def)
        moreover have "trace w' = trace w @ (?a @ Invoke # Sleep d # seg)"
          using t i(2) by simp
        moreover have "retry_plan func (max_retries s) (attempt # rest) d
                 = (r', invocations (?a @ Invoke # Sleep d # seg),
                    backoff_delays (?a @ Invoke # Sleep d # seg))"
          unfolding invocations_admit_segment backoff_admit_segment
          using Inl True nonneg i(3) c(3) by (simp add: invocations_simps backoff_simps)
        ultimately show ?thesis by blast
      qed
    qed
  qed
qed

subsection \<open>Attempts and delays\<close>

lemma py_range_length: "length (py_range n) = nat n"
  by (simp add: py_range_def)

lemma plan_counts:
  "retry_plan func mr as d = (r, n, ds) \<Longrightarrow> n \<le> length as \<and> (as \<noteq> [] \<longrightarrow> 1 \<le> n)"
proof (induction as arbitrary: d r n ds)
  case Nil
  then show ?case by simp
next
  case (Cons a as)
  then show ?case
    by (auto split: sum.splits if_splits prod.splits)
qed

lemma plan_delays_schedule:
  "retry_plan func mr as d = (r, n, ds) \<Longrightarrow> ds = backoff_schedule d (length ds)"
proof (induction as arbitrary: d r n ds)
  case Nil
  then show ?case by simp
next
  case (Cons a as)
  then show ?case
    by (auto split: sum.splits if_splits prod.splits)
qed

lemma schedule_bounds:
  "0 \<le> d \<Longrightarrow> d \<le> 60 \<Longrightarrow> \<forall>x \<in> set (backoff_schedule d n). d \<le> x \<and> x \<le> 60"
proof (induction n arbitrary: d)
  case 0
  show ?case by simp
next
  case (Suc n)
  have "0 \<le> min (d * 2) 60" "min (d * 2) 60 \<le> 60" "d \<le> min (d * 2) 60"
    using Suc.prems by auto
  with Suc.IH[of "min (d * 2) 60"] Suc.prems show ?case by fastforce
qed

lemma schedule_sorted:
  "0 \<le> d \<Longrightarrow> d \<le> 60 \<Longrightarrow> sorted (backoff_schedule d n)"
proof (induction n arbitrary: d)
  case 0
  show ?case by simp
next
  case (Suc n)
  have m: "0 \<le> min (d * 2) 60" "min (d * 2) 60 \<le> 60" "d \<le> min (d * 2) 60"
    using Suc.prems by auto
  from schedule_bounds[OF m(1,2), of n] m(3)
  have "\<forall>x \<in> set (backoff_schedule (min (d * 2) 60) n). d \<le> x" by fastforce
  with Suc.IH[OF m(1,2)] show ?case by simp
qed

lemma schedule_chain:
  "Suc i < n \<Longrightarrow> backoff_schedule d n ! Suc i = min (backoff_schedule d n ! i * 2) 60"
proof (induction n arbitrary: d i)
  case 0
  then show ?case by simp
next
  case (Suc n)
  then obtain m where m: "n = Suc m" by (cases n) auto
  show ?case
  proof (cases i)
    case 0
    then show ?thesis using m by simp
  next
    case (Suc j)
    then have "Suc j < n" using Suc.prems by simp
    from Suc.IH[OF this, of "min (d * 2) 60"] Suc show ?thesis by simp
  qed
qed

lemma schedule_nth:
  "0 \<le> d \<Longrightarrow> d \<le> 60 \<Longrightarrow> i < n \<Longrightarrow> backoff_schedule d n ! i = min (d * 2 ^ i) 60"
proof (induction n arbitrary: d i)
  case 0
  then show ?case by simp
next
  case (Suc n)
  show ?case
  proof (cases i)
    case 0
    then show ?thesis using Suc.prems by simp
  next
    case (Suc j)
    have m: "0 \<le> min (d * 2) 60" "min (d * 2) 60 \<le> 60" using Suc.prems by auto
    have j: "j < n" using Suc Suc.prems by simp
    have p: "(1::real) \<le> 2 ^ j" by simp
    have "min (min (d * 2) 60 * 2 ^ j) 60 = min (d * 2 ^ Suc j) 60"
    proof (cases "d * 2 \<le> 60")
      case True
      then show ?thesis by (simp add: min_def mult.assoc)
    next
      case False
      then have "60 \<le> d * 2" by simp
      then have "60 * 1 \<le> (d * 2) * 2 ^ j" using p by (intro mult_mono) auto
      then have "60 \<le> d * 2 ^ Suc j" by (simp add: mult.assoc)
      then have c: "min (d * 2 ^ Suc j) 60 = 60" by (rule min_absorb2)
      have "(60::real) \<le> 60 * 2 ^ j" using p by simp
      then have b: "min (60 * 2 ^ j) 60 = (60::real)" by (rule min_absorb2)
      have a: "min (d * 2) 60 = 60" using False by simp
      show ?thesis unfolding a b c ..
    qed
    with Suc.IH[OF m j] Suc show ?thesis by simp
  qed
qed

lemma length_backoff_schedule: "length (backoff_schedule d n) = n"
  by (induction n arbitrary: d) simp_all

lemma schedule_from_one:
  "backoff_schedule 1 n = map (\<lambda>i. min (2 ^ i) 60) [0..<n]"
proof (rule nth_equalityI)
  show "length (backoff_schedule 1 n) = length (map (\<lambda>i. min (2 ^ i) 60) [0..<n])"
    by (simp add: length_backoff_schedule)
next
  fix i assume "i < length (backoff_schedule 1 n)"
  then have i: "i < n" by (simp add: length_backoff_schedule)
  then show "backoff_schedule 1 n ! i = map (\<lambda>i. min (2 ^ i) 60) [0..<n] ! i"
    using schedule_nth[of 1 i n] by simp
qed

lemma plan_exhausts:
  assumes rl: "\<forall>k. \<exists>e. func k = Inl e \<and> is_Exception e \<and> is_rate_limit e"
  shows "0 \<le> d \<Longrightarrow> i \<le> m \<Longrightarrow>
         \<exists>e ds. func (nat m) = Inl e \<and>
           retry_plan func m [i..m] d = (Inl e, nat (m - i + 1), ds)"
proof (induction "nat (m - i)" arbitrary: i d)
  case 0
  then have im: "i = m" by simp
  from rl obtain e where e: "func (nat m) = Inl e" by blast
  have "[i..m] = [m]" using im by (simp add: upto.simps)
  then show ?case using e im by simp
next
  case (Suc k)
  then have lt: "i < m" by linarith
  from rl obtain e' where e': "func (nat i) = Inl e'" "is_Exception e'" "is_rate_limit e'"
    by blast
  have u: "[i..m] = i # [i + 1..m]" using lt by (simp add: upto.simps)
  have "k = nat (m - (i + 1))" using Suc.hyps(2) by linarith
  from Suc.hyps(1)[OF this, of "min (d * 2) 60"] Suc.prems lt
  obtain e ds where r: "func (nat m) = Inl e"
     "retry_plan func m [i + 1..m] (min (d * 2) 60) = (Inl e, nat (m - (i + 1) + 1), ds)"
    by auto
  have "Suc (nat (m - (i + 1) + 1)) = nat (m - i + 1)" using lt by linarith
  then have "retry_plan func m [i..m] d = (Inl e, nat (m - i + 1), d # ds)"
    unfolding u using e' lt Suc.prems(1) r(2) by simp
  with r(1) show ?case by blast
qed

lemma execute_refines:
  assumes "1 \<le> requests_per_minute s" "1 \<le> requests_per_hour s" "\<not> lock s"
  shows "\<exists>r s' w' seg. execute_with_retry func s w = Some (r, s', w') \<and>
           trace w' = trace w @ seg \<and>
           retry_plan func (max_retries s) (py_range (max_retries s + 1)) (initial_retry_delay s)
             = (r, invocations seg, backoff_delays seg)"
  unfolding execute_with_retry_def Let_def by (rule retry_loop_refines[OF assms])

lemma always_rate_limited_classified:
  "\<forall>k. \<exists>e. always_rate_limited k = Inl e \<and> is_Exception e \<and> is_rate_limit e"
proof -
  have "is_rate_limit (PyException ''ClientError'' ''429 RESOURCE_EXHAUSTED'')" by code_simp
  then show ?thesis by (simp add: always_rate_limited_def)
qed

text \<open>
  C6. For every limiter with positive limits, a free lock and \<open>max_retries \<ge> 0\<close>,
  \<open>execute_with_retry\<close> returns after at most \<open>max_retries + 1\<close> attempts. If the callable
  always raises an error classified as a rate limit, that is an instance of
  \<^verbatim>\<open>Exception\<close> whose message the handler matches (and the initial delay is not
  negative), there are exactly \<open>max_retries + 1\<close> attempts, 3 for \<open>max_retries = 2\<close>, and
  the error of the last attempt leaves the function. With \<open>max_retries = 0\<close> there is
  exactly one attempt and no sleep before a retry, and an error of that attempt leaves the
  function.
\<close>

theorem retry_attempts_bounded:
  assumes "1 \<le> requests_per_minute s" "1 \<le> requests_per_hour s" "\<not> lock s"
      and "0 \<le> max_retries s"
  shows "\<exists>r s' w' seg. execute_with_retry func s w = Some (r, s', w') \<and>
           trace w' = trace w @ seg \<and>
           int (invocations seg) \<le> max_retries s + 1 \<and>
           (0 \<le> initial_retry_delay s \<and> (\<forall>k. \<exists>e. func k = Inl e \<and> is_Exception e \<and> is_rate_limit e) \<longrightarrow>
              int (invocations seg) = max_retries s + 1 \<and>
              (\<exists>e. func (nat (max_retries s)) = Inl e \<and> r = Inl e)) \<and>
           (max_retries s = 0 \<longrightarrow>
              invocations seg = 1 \<and> backoff_delays seg = [] \<and>
              (\<forall>e. func 0 = Inl e \<longrightarrow> r = Inl e))"
proof -
  let ?m = "max_retries s"
  let ?d = "initial_retry_delay s"
  from execute_refines[OF assms(1,2,3), of func w] obtain r s' w' seg where
    x: "execute_with_retry func s w = Some (r, s', w')" "trace w' = trace w @ seg" and
    p: "retry_plan func ?m (py_range (?m + 1)) ?d = (r, invocations seg, backoff_delays seg)"
    by blast
  have "invocations seg \<le> length (py_range (?m + 1))"
    using plan_counts[OF p] by simp
  then have b: "int (invocations seg) \<le> ?m + 1"
    using assms(4) by (simp add: py_range_length)
  have e: "int (invocations seg) = ?m + 1 \<and> (\<exists>e. func (nat ?m) = Inl e \<and> r = Inl e)"
    if "0 \<le> ?d" "\<forall>k. \<exists>e. func k = Inl e \<and> is_Exception e \<and> is_rate_limit e"
  proof -
    from plan_exhausts[OF that(2) that(1), of 0 ?m] assms(4)
    obtain e ds where "func (nat ?m) = Inl e"
      "retry_plan func ?m [0..?m] ?d = (Inl e, nat (?m - 0 + 1), ds)"
      by blast
    with p assms(4) show ?thesis by (auto simp: py_range_def)
  qed
  have z: "invocations seg = 1 \<and> backoff_delays seg = [] \<and> (\<forall>e. func 0 = Inl e \<longrightarrow> r = Inl e)"
    if "?m = 0"
    using p that by (auto simp: py_range_def upto.simps split: sum.splits)
  show ?thesis using x b e z by blast
qed

text \<open>
  Two retries and a callable that is always rejected with a 429: three attempts, delays
  of 1 and 2 seconds, and the 429 leaves the function.
\<close>

theorem retry_attempts_bounded_witness:
  "(\<exists>r s' w' seg.
      execute_with_retry always_rate_limited (default_limiter 2 1) \<lparr>clock = 0, trace = []\<rparr>
        = Some (r, s', w') \<and>
      trace w' = trace \<lparr>clock = 0, trace = []\<rparr> @ seg \<and>
      invocations seg = 3 \<and>
      r = Inl (PyException ''ClientError'' ''429 RESOURCE_EXHAUSTED'')) \<and>
   execute_with_retry always_rate_limited (default_limiter 2 1) \<lparr>clock = 0, trace = []\<rparr>
     = Some (Inl (PyException ''ClientError'' ''429 RESOURCE_EXHAUSTED''),
             \<lparr>requests_per_minute = 30, requests_per_hour = 1500, max_retries = 2,
              initial_retry_delay = 1, minute_requests = [0, 1, 3], hour_requests = [0, 1, 3],
              lock = False\<rparr>,
             \<lparr>clock = 3,
              trace = [Acquire, Release, Invoke, Sleep 1, Acquire, Release, Invoke, Sleep 2,
                       Acquire, Release, Invoke]\<rparr>)"
proof -
  let ?s = "default_limiter 2 1"
  let ?w = "\<lparr>clock = 0, trace = []\<rparr>"
  have h: "1 \<le> requests_per_minute ?s" "1 \<le> requests_per_hour ?s" "\<not> lock ?s"
    "0 \<le> max_retries ?s"
    by (simp_all add: default_limiter_def)
  have m: "max_retries ?s = 2" "0 \<le> initial_retry_delay ?s"
    by (simp_all add: default_limiter_def)
  from retry_attempts_bounded[OF h, of always_rate_limited ?w] obtain r s' w' seg where
    x: "execute_with_retry always_rate_limited ?s ?w = Some (r, s', w')"
       "trace w' = trace ?w @ seg" and
    y: "0 \<le> initial_retry_delay ?s \<and> (\<forall>k. \<exists>e. always_rate_limited k = Inl e \<and> is_Exception e \<and> is_rate_limit e) \<longrightarrow>
              int (invocations seg) = max_retries ?s + 1 \<and>
              (\<exists>e. always_rate_limited (nat (max_retries ?s)) = Inl e \<and> r = Inl e)"
    by (elim exE conjE) (rule that)
  from y m always_rate_limited_classified
  have "int (invocations seg) = 3" "r = Inl (PyException ''ClientError'' ''429 RESOURCE_EXHAUSTED'')"
    by (auto simp: always_rate_limited_def)
  with x have a: "\<exists>r s' w' seg.
      execute_with_retry always_rate_limited ?s ?w = Some (r, s', w') \<and>
      trace w' = trace ?w @ seg \<and> invocations seg = 3 \<and>
      r = Inl (PyException ''ClientError'' ''429 RESOURCE_EXHAUSTED'')"
    by auto
  have e: "execute_with_retry always_rate_limited ?s ?w
     = Some (Inl (PyException ''ClientError'' ''429 RESOURCE_EXHAUSTED''),
             \<lparr>requests_per_minute = 30, requests_per_hour = 1500, max_retries = 2,
              initial_retry_delay = 1, minute_requests = [0, 1, 3], hour_requests = [0, 1, 3],
              lock = False\<rparr>,
             \<lparr>clock = 3,
              trace = [Acquire, Release, Invoke, Sleep 1, Acquire, Release, Invoke, Sleep 2,
                       Acquire, Release, Invoke]\<rparr>)"
    by code_simp
  show ?thesis by (rule conjI[OF a e])
qed

text \<open>
  C7. An error is classified as a rate limit when its message contains \<^verbatim>\<open>429\<close>, or
  contains \<^verbatim>\<open>rate limit\<close> in any letter case. When the first attempt raises an error that
  is not so classified, that same error leaves \<open>execute_with_retry\<close>, after one attempt
  and without any sleep before a retry, whatever \<open>max_retries \<ge> 0\<close> is.
\<close>

theorem non_rate_limit_error_propagates:
  assumes "1 \<le> requests_per_minute s" "1 \<le> requests_per_hour s" "\<not> lock s"
      and "0 \<le> max_retries s"
      and "func 0 = Inl e" "\<not> is_rate_limit e"
  shows "\<exists>s' w' seg. execute_with_retry func s w = Some (Inl e, s', w') \<and>
           trace w' = trace w @ seg \<and> invocations seg = 1 \<and> backoff_delays seg = []"
proof -
  let ?m = "max_retries s"
  from execute_refines[OF assms(1,2,3), of func w] obtain r s' w' seg where
    x: "execute_with_retry func s w = Some (r, s', w')" "trace w' = trace w @ seg" and
    p: "retry_plan func ?m (py_range (?m + 1)) (initial_retry_delay s)
          = (r, invocations seg, backoff_delays seg)"
    by blast
  have "py_range (?m + 1) = 0 # [1..?m]" using assms(4) by (simp add: py_range_def upto.simps)
  with p assms(5,6) have "r = Inl e" "invocations seg = 1" "backoff_delays seg = []"
    by auto
  with x show ?thesis by blast
qed

text \<open>Five retries allowed, and a callable that fails with a \<^verbatim>\<open>ValueError\<close>: one attempt.\<close>

theorem non_rate_limit_error_propagates_witness:
  "(\<exists>s' w' seg.
      execute_with_retry always_invalid (default_limiter 5 1) \<lparr>clock = 0, trace = []\<rparr>
        = Some (Inl (PyException ''ValueError'' ''invalid prompt''), s', w') \<and>
      trace w' = trace \<lparr>clock = 0, trace = []\<rparr> @ seg \<and> invocations seg = 1 \<and>
      backoff_delays seg = []) \<and>
   execute_with_retry always_invalid (default_limiter 5 1) \<lparr>clock = 0, trace = []\<rparr>
     = Some (Inl (PyException ''ValueError'' ''invalid prompt''),
             \<lparr>requests_per_minute = 30, requests_per_hour = 1500, max_retries = 5,
              initial_retry_delay = 1, minute_requests = [0], hour_requests = [0],
              lock = False\<rparr>,
             \<lparr>clock = 0, trace = [Acquire, Release, Invoke]\<rparr>)"
proof -
  let ?s = "default_limiter 5 1"
  have h: "1 \<le> requests_per_minute ?s" "1 \<le> requests_per_hour ?s" "\<not> lock ?s"
    "0 \<le> max_retries ?s"
    by (simp_all add: default_limiter_def)
  have f: "always_invalid 0 = Inl (PyException ''ValueError'' ''invalid prompt'')"
    by (simp add: always_invalid_def)
  have n: "\<not> is_rate_limit (PyException ''ValueError'' ''invalid prompt'')"
    by code_simp
  have e: "execute_with_retry always_invalid ?s \<lparr>clock = 0, trace = []\<rparr>
     = Some (Inl (PyException ''ValueError'' ''invalid prompt''),
             \<lparr>requests_per_minute = 30, requests_per_hour = 1500, max_retries = 5,
              initial_retry_delay = 1, minute_requests = [0], hour_requests = [0],
              lock = False\<rparr>,
             \<lparr>clock = 0, trace = [Acquire, Release, Invoke]\<rparr>)"
    by code_simp
  have a: "\<exists>s' w' seg.
      execute_with_retry always_invalid ?s \<lparr>clock = 0, trace = []\<rparr>
        = Some (Inl (PyException ''ValueError'' ''invalid prompt''), s', w') \<and>
      trace w' = trace \<lparr>clock = 0, trace = []\<rparr> @ seg \<and> invocations seg = 1 \<and>
      backoff_delays seg = []"
    using h f n by (rule non_rate_limit_error_propagates)
  show ?thesis by (rule conjI[OF a e])
qed

text \<open>
  An exception outside \<^verbatim>\<open>Exception\<close> is not caught: it leaves after one attempt, whatever
  its message says.
\<close>

lemma uncaught_exception_leaves_at_once:
  assumes "1 \<le> requests_per_minute s" "1 \<le> requests_per_hour s" "\<not> lock s"
      and "0 \<le> max_retries s"
      and "func 0 = Inl e" "\<not> is_Exception e"
  shows "\<exists>s' w' seg. execute_with_retry func s w = Some (Inl e, s', w') \<and>
           trace w' = trace w @ seg \<and> invocations seg = 1 \<and> backoff_delays seg = []"
proof -
  let ?m = "max_retries s"
  from execute_refines[OF assms(1,2,3), of func w] obtain r s' w' seg where
    x: "execute_with_retry func s w = Some (r, s', w')" "trace w' = trace w @ seg" and
    p: "retry_plan func ?m (py_range (?m + 1)) (initial_retry_delay s)
          = (r, invocations seg, backoff_delays seg)"
    by blast
  have "py_range (?m + 1) = 0 # [1..?m]" using assms(4) by (simp add: py_range_def upto.simps)
  with p assms(5,6) have "r = Inl e" "invocations seg = 1" "backoff_delays seg = []"
    by auto
  with x show ?thesis by blast
qed

lemma system_exit_is_not_retried:
  "execute_with_retry always_exiting (default_limiter 2 1) \<lparr>clock = 0, trace = []\<rparr>
     = Some (Inl (PyBaseException ''SystemExit'' ''429 quota''),
             \<lparr>requests_per_minute = 30, requests_per_hour = 1500, max_retries = 2,
              initial_retry_delay = 1, minute_requests = [0], hour_requests = [0],
              lock = False\<rparr>,
             \<lparr>clock = 0, trace = [Acquire, Release, Invoke]\<rparr>)"
  by code_simp

text \<open>
  The delays slept before the retries of one call: the first is \<open>initial_retry_delay\<close>
  itself, and each later one is the minimum of twice its predecessor and 60. When
  \<open>initial_retry_delay\<close> is at most 60, they never decrease and never exceed 60; from the
  initial delay 1 they are \<open>min (2 ^ i) 60\<close>: 1, 2, 4, 8, 16, 32, 60, 60, ...
\<close>

lemma backoff_delays_chain:
  assumes "1 \<le> requests_per_minute s" "1 \<le> requests_per_hour s" "\<not> lock s"
  shows "\<exists>r s' w' seg. execute_with_retry func s w = Some (r, s', w') \<and>
           trace w' = trace w @ seg \<and>
           (backoff_delays seg \<noteq> [] \<longrightarrow> hd (backoff_delays seg) = initial_retry_delay s) \<and>
           (\<forall>i. Suc i < length (backoff_delays seg) \<longrightarrow>
                backoff_delays seg ! Suc i = min (backoff_delays seg ! i * 2) 60) \<and>
           (initial_retry_delay s \<le> 60 \<longrightarrow>
              sorted (backoff_delays seg) \<and> (\<forall>d \<in> set (backoff_delays seg). d \<le> 60)) \<and>
           (initial_retry_delay s = 1 \<longrightarrow>
              backoff_delays seg = map (\<lambda>i. min (2 ^ i) 60) [0..<length (backoff_delays seg)])"
proof -
  let ?m = "max_retries s"
  let ?d = "initial_retry_delay s"
  from execute_refines[OF assms(1,2,3), of func w] obtain r s' w' seg where
    x: "execute_with_retry func s w = Some (r, s', w')" "trace w' = trace w @ seg" and
    p: "retry_plan func ?m (py_range (?m + 1)) ?d = (r, invocations seg, backoff_delays seg)"
    by blast
  let ?ds = "backoff_delays seg"
  have sch: "?ds = backoff_schedule ?d (length ?ds)"
    by (rule plan_delays_schedule[OF p])
  have nonneg: "0 \<le> ?d" if "?ds \<noteq> []"
    using p that by (cases "py_range (?m + 1)") (auto split: sum.splits if_splits prod.splits)
  have hd: "hd ?ds = ?d" if "?ds \<noteq> []"
  proof -
    from that obtain n where "length ?ds = Suc n" by (cases ?ds) auto
    with sch have "?ds = ?d # backoff_schedule (min (?d * 2) 60) n" by simp
    then show ?thesis by (metis list.sel(1))
  qed
  have srt: "sorted ?ds" if le: "?d \<le> 60"
  proof (cases "?ds = []")
    case True then show ?thesis by simp
  next
    case False
    from schedule_sorted[OF nonneg[OF False] le, of "length ?ds"] sch
    show ?thesis by simp
  qed
  have cap: "\<forall>d \<in> set ?ds. d \<le> 60" if le: "?d \<le> 60"
  proof (cases "?ds = []")
    case True then show ?thesis by simp
  next
    case False
    from schedule_bounds[OF nonneg[OF False] le, of "length ?ds"] sch
    show ?thesis by auto
  qed
  have chain: "\<forall>i. Suc i < length ?ds \<longrightarrow> ?ds ! Suc i = min (?ds ! i * 2) 60"
    using schedule_chain[of _ "length ?ds" ?d] sch by auto
  have one: "?ds = map (\<lambda>i. min (2 ^ i) 60) [0..<length ?ds]" if "?d = 1"
    using sch schedule_from_one[of "length ?ds"] that by simp
  show ?thesis using x srt cap hd chain one by blast
qed

text \<open>Seven retries from the initial delay 1: the delays are 1, 2, 4, 8, 16, 32 and 60.\<close>

lemma backoff_delays_from_one:
  "execute_with_retry always_rate_limited (default_limiter 7 1) \<lparr>clock = 0, trace = []\<rparr>
      = Some (Inl (PyException ''ClientError'' ''429 RESOURCE_EXHAUSTED''),
          \<lparr>requests_per_minute = 30, requests_per_hour = 1500, max_retries = 7,
              initial_retry_delay = 1, minute_requests = [63, 123],
              hour_requests = [0, 1, 3, 7, 15, 31, 63, 123], lock = False\<rparr>,
          \<lparr>clock = 123,
           trace = [Acquire, Release, Invoke, Sleep 1, Acquire, Release, Invoke, Sleep 2,
                    Acquire, Release, Invoke, Sleep 4, Acquire, Release, Invoke, Sleep 8,
                    Acquire, Release, Invoke, Sleep 16, Acquire, Release, Invoke, Sleep 32,
                    Acquire, Release, Invoke, Sleep 60, Acquire, Release, Invoke]\<rparr>) \<and>
   backoff_delays [Acquire, Release, Invoke, Sleep 1, Acquire, Release, Invoke, Sleep 2,
                    Acquire, Release, Invoke, Sleep 4, Acquire, Release, Invoke, Sleep 8,
                    Acquire, Release, Invoke, Sleep 16, Acquire, Release, Invoke, Sleep 32,
                    Acquire, Release, Invoke, Sleep 60, Acquire, Release, Invoke]
     = [1, 2, 4, 8, 16, 32, 60]"
  by code_simp

text \<open>
  C9. The claim: the delays slept before the retries of one call never decrease and
  never exceed 60 seconds. The code caps the delay where it doubles it (the comment
  there reads \<^verbatim>\<open>double the wait time, max 60 seconds\<close>) and sleeps the initial delay as it
  is. With two retries, the initial delay 120 and a callable that is always rejected with
  a 429, the delays are 120 and then 60: above the cap, and decreasing.
\<close>

theorem long_initial_delay_exceeds_cap:
  "execute_with_retry always_rate_limited (default_limiter 2 120) \<lparr>clock = 0, trace = []\<rparr>
     = Some (Inl (PyException ''ClientError'' ''429 RESOURCE_EXHAUSTED''),
             \<lparr>requests_per_minute = 30, requests_per_hour = 1500, max_retries = 2,
              initial_retry_delay = 120, minute_requests = [120, 180],
              hour_requests = [0, 120, 180], lock = False\<rparr>,
             \<lparr>clock = 180,
              trace = [Acquire, Release, Invoke, Sleep 120, Acquire, Release, Invoke, Sleep 60,
                       Acquire, Release, Invoke]\<rparr>) \<and>
   backoff_delays [Acquire, Release, Invoke, Sleep 120, Acquire, Release, Invoke, Sleep 60,
                   Acquire, Release, Invoke] = [120, 60] \<and>
   \<not> sorted [120, 60 :: real] \<and> \<not> (120 :: real) \<le> 60"
  by code_simp

subsection \<open>Using a configuration without capacity or retries\<close>

text \<open>
  What the constructor accepts is not rejected at first use either. With a limit of zero
  or less, \<open>wait_if_needed\<close> never returns: the loop condition can never hold. With a
  negative \<open>max_retries\<close>, \<open>execute_with_retry\<close> returns \<^verbatim>\<open>None\<close> without calling the
  callable: the range of attempts is empty.
\<close>

lemma wait_loop_returns_only_with_positive_limits:
  assumes "wait_loop s w = Some y"
  shows "0 < requests_per_minute s \<and> 0 < requests_per_hour s"
proof (rule wait_loop.raw_induct[where
         P = "\<lambda>s w y. 0 < requests_per_minute s \<and> 0 < requests_per_hour s", OF _ assms])
  fix f :: "rate_limiter \<Rightarrow> world \<Rightarrow> (unit result \<times> rate_limiter \<times> world) option"
  fix s w y
  assume IH: "\<And>s w y. f s w = Some y \<Longrightarrow> 0 < requests_per_minute s \<and> 0 < requests_per_hour s"
  assume body: "(case can_make_request s w of
        (can, s1) \<Rightarrow>
          if can then Some (Inr (), s1, w)
          else
            (case get_wait_time s1 w of
               (wait_time, s2) \<Rightarrow>
                 if wait_time > 0 then
                   (case time_sleep (wait_time + 0.1) w of
                      Inl e \<Rightarrow> Some (Inl e, s2, w)
                    | Inr w1 \<Rightarrow> f (clean_old_requests s2 (clock w1)) w1)
                 else
                   (case time_sleep 0.1 w of
                      Inl e \<Rightarrow> Some (Inl e, s2, w)
                    | Inr w1 \<Rightarrow> f s2 w1))) = Some y"
  show "0 < requests_per_minute s \<and> 0 < requests_per_hour s"
  proof (cases "fst (can_make_request s w)")
    case True
    then show ?thesis by (auto simp: can_make_request_eq)
  next
    case False
    with body have "\<exists>s' w'. f s' w' = Some y \<and>
        requests_per_minute s' = requests_per_minute s \<and>
        requests_per_hour s' = requests_per_hour s"
      using get_wait_time_nonneg[of "clean_old_requests s (clock w)" w]
            get_wait_time_snd[of "clean_old_requests s (clock w)" w]
      by (auto simp: can_make_request_eq time_sleep_def split: prod.splits if_splits)
    with IH show ?thesis by metis
  qed
qed

lemma admit_never_returns_without_capacity:
  assumes "requests_per_minute s \<le> 0 \<or> requests_per_hour s \<le> 0"
  shows "wait_if_needed s w = None"
proof (cases "lock s")
  case True
  then show ?thesis by (simp add: wait_if_needed_def)
next
  case False
  have "wait_loop (s\<lparr>lock := True\<rparr>) (w\<lparr>trace := trace w @ [Acquire]\<rparr>) = None"
  proof (rule ccontr)
    assume "wait_loop (s\<lparr>lock := True\<rparr>) (w\<lparr>trace := trace w @ [Acquire]\<rparr>) \<noteq> None"
    then obtain y where "wait_loop (s\<lparr>lock := True\<rparr>) (w\<lparr>trace := trace w @ [Acquire]\<rparr>) = Some y"
      by blast
    from wait_loop_returns_only_with_positive_limits[OF this] assms show False by simp
  qed
  then show ?thesis using False by (simp add: wait_if_needed_def)
qed

lemma negative_max_retries_makes_no_attempt:
  assumes "max_retries s < 0"
  shows "execute_with_retry func s w = Some (Inr None, s, w)"
  using assms by (simp add: execute_with_retry_def py_range_def)

end
